theory Spec2Isabelle
  imports Main "HOL-Library.Word"
begin

section \<open>FHEBlackjack: the contract of contracts/FHEBlackjack.sol\<close>

text \<open>
  The contract keeps every card, sum and flag as a ciphertext of the fhevm library and
  computes on them with the library's homomorphic operations. The embedding gives each
  ciphertext its plaintext at the declared width: an \<open>euint8\<close> is an 8-bit word, an
  \<open>euint32\<close> a 32-bit word, an \<open>ebool\<close> a truth value. Plain Solidity integers keep
  their widths too: \<open>uint8\<close>, \<open>uint256\<close> and \<open>address\<close> are words, and the checked
  arithmetic of Solidity 0.8 is written out (an overflow is the error \<open>Panic\<close>).
\<close>

subsection \<open>Types\<close>

type_synonym euint8 = "8 word"
type_synonym euint32 = "32 word"
type_synonym ebool = bool
type_synonym uint8 = "8 word"
type_synonym uint256 = "256 word"
type_synonym address = "160 word"

text \<open>
  A handle is the \<open>bytes32\<close> value that names a ciphertext; only its identity matters
  here. An encrypted input of a call (\<open>externalEuint8\<close>, \<open>externalEuint32\<close>) is the
  handle the caller passes together with the plaintext behind it.
\<close>

type_synonym handle = nat
type_synonym externalEuint8 = "handle \<times> 8 word"
type_synonym externalEuint32 = "handle \<times> 32 word"

datatype Phase = PlayerTurn | DealerTurn | GameEnding | Completed

subsection \<open>The homomorphic primitives\<close>

text \<open>
  Modelled from the spec: the operations of the fhevm library (\<open>FHE.add\<close>, \<open>FHE.eq\<close>,
  \<open>FHE.gt\<close>, \<open>FHE.lt\<close>, \<open>FHE.le\<close>, \<open>FHE.or\<close>, \<open>FHE.and\<close>, \<open>FHE.select\<close>,
  \<open>FHE.asEuint8\<close>, \<open>FHE.asEuint32\<close>), which the contract imports and the repository
  does not contain. Section 3 of the spec lists them (add, less-than, less-or-equal,
  greater-than, equal, logical or/and on comparison results, ternary select); each is
  its plaintext meaning on unsigned integers of the declared width, and \<open>FHE.add\<close>
  wraps around as the library's addition does.
\<close>

definition asEuint8 :: "8 word \<Rightarrow> euint8" where
  "asEuint8 v = v"

definition asEuint32 :: "32 word \<Rightarrow> euint32" where
  "asEuint32 v = v"

definition FHE_eq :: "euint8 \<Rightarrow> euint8 \<Rightarrow> ebool" where
  "FHE_eq a b = (a = b)"

definition FHE_or :: "ebool \<Rightarrow> ebool \<Rightarrow> ebool" where
  "FHE_or a b = (a \<or> b)"

definition FHE_and :: "ebool \<Rightarrow> ebool \<Rightarrow> ebool" where
  "FHE_and a b = (a \<and> b)"

definition FHE_add :: "euint32 \<Rightarrow> euint32 \<Rightarrow> euint32" where
  "FHE_add a b = a + b"

text \<open>\<open>FHE.add\<close> of an \<open>euint32\<close> and an \<open>euint8\<close>: the narrower operand is widened.\<close>

definition FHE_add_8 :: "euint32 \<Rightarrow> euint8 \<Rightarrow> euint32" where
  "FHE_add_8 a b = a + ucast b"

definition FHE_gt :: "euint32 \<Rightarrow> euint32 \<Rightarrow> ebool" where
  "FHE_gt a b = (b < a)"

definition FHE_lt :: "euint32 \<Rightarrow> euint32 \<Rightarrow> ebool" where
  "FHE_lt a b = (a < b)"

definition FHE_le :: "euint32 \<Rightarrow> euint32 \<Rightarrow> ebool" where
  "FHE_le a b = (a \<le> b)"

definition FHE_select :: "ebool \<Rightarrow> euint32 \<Rightarrow> euint32 \<Rightarrow> euint32" where
  "FHE_select c a b = (if c then a else b)"

subsection \<open>The arithmetic module\<close>

text \<open>\<open>getBlackjackBaseValue\<close> (lines 49-68).\<close>

definition getBlackjackBaseValue :: "euint8 \<Rightarrow> euint32" where
  "getBlackjackBaseValue crd =
     (let isFaceCard =
            FHE_or (FHE_eq crd (asEuint8 11))
              (FHE_or (FHE_eq crd (asEuint8 12)) (FHE_eq crd (asEuint8 13)));
          faceCardValue = asEuint32 10;
          cardAs32 = FHE_add_8 (asEuint32 0) crd
      in FHE_select isFaceCard faceCardValue cardAs32)"

text \<open>\<open>calculateBlackjackSum\<close> (lines 76-91).\<close>

definition calculateBlackjackSum :: "euint32 \<Rightarrow> euint32 \<Rightarrow> euint32" where
  "calculateBlackjackSum baseSum aceCount =
     (let hasAce = FHE_gt aceCount (asEuint32 0);
          sumWithSoftAce = FHE_add baseSum (asEuint32 10);
          canUseSoftAce = FHE_le sumWithSoftAce (asEuint32 21);
          shouldAddTen = FHE_and hasAce canUseSoftAce
      in FHE_select shouldAddTen sumWithSoftAce baseSum)"

text \<open>\<open>addCardToSum\<close> (lines 100-114); the result is
  \<open>(newBaseSum, newAceCount, finalSum)\<close>.\<close>

definition addCardToSum :: "euint32 \<Rightarrow> euint32 \<Rightarrow> euint8 \<Rightarrow> euint32 \<times> euint32 \<times> euint32" where
  "addCardToSum currentBaseSum currentAceCount crd =
     (let baseValue = getBlackjackBaseValue crd;
          newBaseSum = FHE_add currentBaseSum baseValue;
          isAce = FHE_eq crd (asEuint8 1);
          aceIncrement = FHE_select isAce (asEuint32 1) (asEuint32 0);
          newAceCount = FHE_add currentAceCount aceIncrement;
          finalSum = calculateBlackjackSum newBaseSum newAceCount
      in (newBaseSum, newAceCount, finalSum))"

subsection \<open>The disclosure manager\<close>

text \<open>
  Modelled from the spec: the access control list of the fhevm library (\<open>FHE.allow\<close>,
  \<open>FHE.allowThis\<close>, \<open>FHE.makePubliclyDecryptable\<close>), which the repository does not
  contain. Section 4.4 of the spec gives every ciphertext a disclosure policy that only
  accumulates grants. A grant is made on a handle. The list is kept in two parts.

  The cards and the wager come from the caller: \<open>FHE.fromExternal\<close> returns the handle
  the caller passed, so the same handle may stand at several positions of a deck and
  in several games, and the grants it already has stay. These grants are kept by handle,
  for all games together (\<open>inputAcl\<close> of the storage). The four card fields hold the
  handles of the deck positions 0 to 3 (lines 194-197: \<open>g.playerCard1 = g.deck[0]\<close>
  and so on). A handle is of one width, so a card's handle is never a wager's.

  The sums and flags are computed by the contract: every homomorphic operation yields
  a new ciphertext, which nobody has been granted yet. Their grants are kept with the
  game and the field that holds the ciphertext (\<open>acl\<close> of the game), and storing a
  new ciphertext into a field starts that field's grants anew (\<open>fresh\<close>).
\<close>

datatype cipher =
  PlayerSum | DealerSum
  | PlayerBaseSum | DealerBaseSum
  | PlayerAceCount | DealerAceCount
  | BustFlag | WinFlag | ContinueFlag

datatype input = Card handle | Wager handle

datatype principal = This | Account address | Anyone

subsection \<open>The game record and the contract's storage\<close>

record Game =
  player :: address
  betAmount :: euint32
  betHandle :: handle
  plainBetAmount :: uint256
  deck :: "euint8 list"
  deckHandles :: "handle list"
  deckIndex :: uint8
  playerCard1 :: euint8
  playerCard2 :: euint8
  dealerCardUp :: euint8
  dealerHoleCard :: euint8
  playerSum :: euint32
  dealerSum :: euint32
  playerBaseSum :: euint32
  dealerBaseSum :: euint32
  playerAceCount :: euint32
  dealerAceCount :: euint32
  bustFlag :: euint32
  winFlag :: euint32
  continueFlag :: euint32
  phase :: Phase
  exists :: bool
  acl :: "cipher \<Rightarrow> principal set"

text \<open>
  \<open>deck\<close> keeps the plaintexts of the 52 cards and \<open>deckHandles\<close> their handles,
  position by position; \<open>betAmount\<close> and \<open>betHandle\<close> do the same for the wager.
  A storage slot that was never written: every field is zero.
\<close>

definition no_game :: Game where
  "no_game =
     \<lparr>player = 0, betAmount = 0, betHandle = 0, plainBetAmount = 0,
      deck = replicate 52 0, deckHandles = replicate 52 0, deckIndex = 0,
      playerCard1 = 0, playerCard2 = 0, dealerCardUp = 0, dealerHoleCard = 0,
      playerSum = 0, dealerSum = 0, playerBaseSum = 0, dealerBaseSum = 0,
      playerAceCount = 0, dealerAceCount = 0, bustFlag = 0, winFlag = 0, continueFlag = 0,
      phase = PlayerTurn, exists = False, acl = (\<lambda>c. {})\<rparr>"

text \<open>\<open>ethBalance\<close> is \<open>address(this).balance\<close>, in wei.\<close>

record Contract =
  games :: "uint256 \<Rightarrow> Game"
  nextGameId :: uint256
  chipBalances :: "address \<Rightarrow> uint256"
  ethBalance :: nat
  inputAcl :: "input \<Rightarrow> principal set"

text \<open>The storage after the constructor.\<close>

definition init :: Contract where
  "init = \<lparr>games = (\<lambda>i. no_game), nextGameId = 1, chipBalances = (\<lambda>a. 0), ethBalance = 0,
      inputAcl = (\<lambda>c. {})\<rparr>"

text \<open>
  A call either reverts or returns the new storage. \<open>Require m\<close> is a failed
  \<open>require\<close> with the message \<open>m\<close>, \<open>Panic\<close> an overflow of checked arithmetic,
  \<open>InputRejected\<close> an encrypted input that the library's \<open>FHE.fromExternal\<close> refuses
  (or calldata that does not decode to the declared types).
\<close>

datatype error = Require string | Panic | InputRejected

definition allow :: "cipher \<Rightarrow> principal \<Rightarrow> Game \<Rightarrow> Game" where
  "allow c p g = g\<lparr>acl := (acl g)(c := insert p (acl g c))\<rparr>"

definition allowThis :: "cipher \<Rightarrow> Game \<Rightarrow> Game" where
  "allowThis c g = allow c This g"

definition makePubliclyDecryptable :: "cipher \<Rightarrow> Game \<Rightarrow> Game" where
  "makePubliclyDecryptable c g = allow c Anyone g"

definition fresh :: "cipher \<Rightarrow> Game \<Rightarrow> Game" where
  "fresh c g = g\<lparr>acl := (acl g)(c := {})\<rparr>"

text \<open>A grant on a caller-supplied handle.\<close>

definition grant :: "input \<Rightarrow> principal \<Rightarrow> (input \<Rightarrow> principal set) \<Rightarrow> (input \<Rightarrow> principal set)" where
  "grant c p a = a(c := insert p (a c))"

text \<open>
  The three disclosure levels of section 4.4, for the owner of a hand: of a set of
  grants, of a computed field of a game, and of the card at a deck position of a game
  (position 0 and 1 are the player's cards, 2 the dealer's open card, 3 the hole card).
\<close>

datatype level = EngineOnly | OwnerDecryptable | Public

definition level_of :: "principal set \<Rightarrow> address \<Rightarrow> level" where
  "level_of ps owner =
     (if Anyone \<in> ps then Public
      else if Account owner \<in> ps then OwnerDecryptable
      else EngineOnly)"

definition disclosure :: "Game \<Rightarrow> cipher \<Rightarrow> level" where
  "disclosure g c = level_of (acl g c) (player g)"

definition card_disclosure :: "Contract \<Rightarrow> uint256 \<Rightarrow> nat \<Rightarrow> level" where
  "card_disclosure s gameId i =
     level_of (inputAcl s (Card (deckHandles (games s gameId) ! i))) (player (games s gameId))"


subsection \<open>The chip ledger\<close>

definition CHIP_PER_ETH :: uint256 where
  "CHIP_PER_ETH = 10000"

definition ether :: uint256 where
  "ether = 1000000000000000000"

text \<open>\<open>buyChips\<close> (lines 121-130), called with \<open>msg.value = val\<close>.\<close>

definition buyChips :: "address \<Rightarrow> uint256 \<Rightarrow> Contract \<Rightarrow> error + Contract" where
  "buyChips sender val s =
     (if \<not> 0 < val then Inl (Require ''Send ETH to buy CHIP'')
      else if \<not> unat val * unat CHIP_PER_ETH < 2 ^ 256 then Inl Panic
      else let amount = (val * CHIP_PER_ETH) div ether in
        if \<not> 0 < amount then Inl (Require ''Amount too small'')
        else if \<not> unat (chipBalances s sender) + unat amount < 2 ^ 256 then Inl Panic
        else Inr (s\<lparr>chipBalances := (chipBalances s)(sender := chipBalances s sender + amount),
                    ethBalance := ethBalance s + unat val\<rparr>))"

text \<open>
  \<open>sellChips\<close> (lines 134-149). \<open>ok\<close> is the result of the transfer to the seller,
  which the seller's account decides.
\<close>

definition sellChips :: "address \<Rightarrow> uint256 \<Rightarrow> bool \<Rightarrow> Contract \<Rightarrow> error + Contract" where
  "sellChips sender chipAmount ok s =
     (if \<not> 0 < chipAmount then Inl (Require ''Zero amount'')
      else if \<not> chipAmount \<le> chipBalances s sender then Inl (Require ''Insufficient CHIP balance'')
      else if \<not> unat chipAmount * unat ether < 2 ^ 256 then Inl Panic
      else let ethAmount = (chipAmount * ether) div CHIP_PER_ETH in
        if \<not> 0 < ethAmount then Inl (Require ''Amount too small'')
        else if \<not> unat ethAmount \<le> ethBalance s then Inl (Require ''Casino lacks ETH'')
        else if \<not> ok then Inl (Require ''ETH transfer failed'')
        else Inr (s\<lparr>chipBalances := (chipBalances s)(sender := chipBalances s sender - chipAmount),
                    ethBalance := ethBalance s - unat ethAmount\<rparr>))"

text \<open>\<open>receive\<close> (line 571).\<close>

definition receive :: "uint256 \<Rightarrow> Contract \<Rightarrow> error + Contract" where
  "receive val s = Inr (s\<lparr>ethBalance := ethBalance s + unat val\<rparr>)"

subsection \<open>The game operations\<close>

text \<open>
  The tuple assignments \<open>(g.playerBaseSum, g.playerAceCount, g.playerSum) = addCardToSum(...)\<close>
  and their dealer counterparts: three new ciphertexts are stored.
\<close>

definition set_player_sums :: "euint32 \<times> euint32 \<times> euint32 \<Rightarrow> Game \<Rightarrow> Game" where
  "set_player_sums r g =
     (case r of (newBaseSum, newAceCount, finalSum) \<Rightarrow>
        fresh PlayerSum (fresh PlayerAceCount (fresh PlayerBaseSum
          (g\<lparr>playerBaseSum := newBaseSum, playerAceCount := newAceCount,
             playerSum := finalSum\<rparr>))))"

definition set_dealer_sums :: "euint32 \<times> euint32 \<times> euint32 \<Rightarrow> Game \<Rightarrow> Game" where
  "set_dealer_sums r g =
     (case r of (newBaseSum, newAceCount, finalSum) \<Rightarrow>
        fresh DealerSum (fresh DealerAceCount (fresh DealerBaseSum
          (g\<lparr>dealerBaseSum := newBaseSum, dealerAceCount := newAceCount,
             dealerSum := finalSum\<rparr>))))"

text \<open>
  Each operation below is given in two parts: its writes to the game (\<open>_hand\<close>), with
  the grants on the ciphertexts it computes, and its grants on caller-supplied handles
  (\<open>_grants\<close>), which act on the list of the storage. Both follow the order of the
  source; \<open>_grants\<close> reads the game as it is when the call begins.

  The loop of lines 188-192 over the indices \<open>is\<close>: each card of the caller's deck is
  taken in with \<open>FHE.fromExternal\<close> and stored (\<open>load_deck\<close>), and its handle is
  granted to the contract (\<open>load_grants\<close>).
\<close>

fun load_deck :: "nat list \<Rightarrow> externalEuint8 list \<Rightarrow> Game \<Rightarrow> Game" where
  "load_deck [] encDeck g = g"
| "load_deck (i # is) encDeck g =
     load_deck is encDeck
       (g\<lparr>deck := (deck g)[i := snd (encDeck ! i)],
          deckHandles := (deckHandles g)[i := fst (encDeck ! i)]\<rparr>)"

fun load_grants ::
  "nat list \<Rightarrow> externalEuint8 list \<Rightarrow> (input \<Rightarrow> principal set) \<Rightarrow> (input \<Rightarrow> principal set)" where
  "load_grants [] encDeck a = a"
| "load_grants (i # is) encDeck a =
     load_grants is encDeck (grant (Card (fst (encDeck ! i))) This a)"

text \<open>The writes of \<open>startGame\<close> to the new game's storage \<open>g0\<close> (lines 176-231).\<close>

definition start_hand ::
  "address \<Rightarrow> externalEuint8 list \<Rightarrow> externalEuint32 \<Rightarrow> uint256 \<Rightarrow> Game \<Rightarrow> Game" where
  "start_hand sender encDeck encryptedBet plainBet g0 =
     (let g = g0\<lparr>player := sender, betAmount := snd encryptedBet,
                betHandle := fst encryptedBet, plainBetAmount := plainBet,
                deckIndex := 4, phase := PlayerTurn, exists := True\<rparr>;
          g = load_deck [0..<52] encDeck g;
          g = g\<lparr>playerCard1 := deck g ! 0, playerCard2 := deck g ! 1,
                dealerCardUp := deck g ! 2, dealerHoleCard := deck g ! 3\<rparr>;
          g = fresh PlayerBaseSum (g\<lparr>playerBaseSum := asEuint32 0\<rparr>);
          g = fresh DealerBaseSum (g\<lparr>dealerBaseSum := asEuint32 0\<rparr>);
          g = fresh PlayerAceCount (g\<lparr>playerAceCount := asEuint32 0\<rparr>);
          g = fresh DealerAceCount (g\<lparr>dealerAceCount := asEuint32 0\<rparr>);
          g = set_player_sums
                (addCardToSum (playerBaseSum g) (playerAceCount g) (playerCard1 g)) g;
          g = set_player_sums
                (addCardToSum (playerBaseSum g) (playerAceCount g) (playerCard2 g)) g;
          g = set_dealer_sums
                (addCardToSum (dealerBaseSum g) (dealerAceCount g) (dealerCardUp g)) g;
          g = allowThis PlayerBaseSum g;
          g = allowThis PlayerAceCount g;
          g = allowThis DealerBaseSum g;
          g = allowThis DealerAceCount g;
          g = allow PlayerSum (Account sender) g;
          g = allowThis PlayerSum g;
          g = allow DealerSum (Account sender) g;
          g = allowThis DealerSum g;
          g = fresh BustFlag (g\<lparr>bustFlag := asEuint32 0\<rparr>);
          g = fresh WinFlag (g\<lparr>winFlag := asEuint32 0\<rparr>);
          g = fresh ContinueFlag (g\<lparr>continueFlag := asEuint32 0\<rparr>)
      in g)"

text \<open>
  The grants of \<open>startGame\<close> on the caller's handles: the wager (line 177), every card
  (line 191), the player's two cards (lines 218-221) and the dealer's open card
  (line 226).
\<close>

definition start_grants ::
  "address \<Rightarrow> externalEuint8 list \<Rightarrow> externalEuint32 \<Rightarrow> (input \<Rightarrow> principal set)
     \<Rightarrow> (input \<Rightarrow> principal set)" where
  "start_grants sender encDeck encryptedBet a0 =
     (let a = grant (Wager (fst encryptedBet)) This a0;
          a = load_grants [0..<52] encDeck a;
          a = grant (Card (fst (encDeck ! 0))) (Account sender) a;
          a = grant (Card (fst (encDeck ! 0))) This a;
          a = grant (Card (fst (encDeck ! 1))) (Account sender) a;
          a = grant (Card (fst (encDeck ! 1))) This a;
          a = grant (Card (fst (encDeck ! 2))) Anyone a
      in a)"

text \<open>
  \<open>startGame\<close> (lines 162-232). The two proofs are what the library's verifier says of
  them; the deck is the caller's 52 encrypted cards, whatever their handles: the
  contract checks neither that they differ nor that they are new. The result is the new
  game's identifier and the new storage.
\<close>

definition startGame ::
  "address \<Rightarrow> externalEuint8 list \<Rightarrow> bool \<Rightarrow> externalEuint32 \<Rightarrow> bool \<Rightarrow> uint256
     \<Rightarrow> Contract \<Rightarrow> error + (uint256 \<times> Contract)" where
  "startGame sender encDeck attestation encryptedBet betProof plainBet s =
     (if length encDeck \<noteq> 52 then Inl InputRejected
      else if \<not> 0 < plainBet then Inl (Require ''Bet required'')
      else if \<not> plainBet \<le> chipBalances s sender then Inl (Require ''Insufficient CHIP balance'')
      else if \<not> betProof then Inl InputRejected
      else if \<not> unat (nextGameId s) + 1 < 2 ^ 256 then Inl Panic
      else if \<not> attestation then Inl InputRejected
      else let gameId = nextGameId s in
        Inr (gameId,
             s\<lparr>chipBalances := (chipBalances s)(sender := chipBalances s sender - plainBet),
               nextGameId := nextGameId s + 1,
               games := (games s)(gameId :=
                 start_hand sender encDeck encryptedBet plainBet (games s gameId)),
               inputAcl := start_grants sender encDeck encryptedBet (inputAcl s)\<rparr>))"

text \<open>The writes of \<open>hit\<close> (lines 240-259).\<close>

definition hit_hand :: "Game \<Rightarrow> Game" where
  "hit_hand g0 =
     (let i = unat (deckIndex g0);
          newCard = deck g0 ! i;
          g = g0\<lparr>deckIndex := deckIndex g0 + 1\<rparr>;
          g = set_player_sums (addCardToSum (playerBaseSum g) (playerAceCount g) newCard) g;
          g = allowThis PlayerBaseSum g;
          g = allowThis PlayerAceCount g;
          g = allow PlayerSum (Account (player g)) g;
          g = allowThis PlayerSum g;
          g = fresh BustFlag
                (g\<lparr>bustFlag := FHE_select (FHE_gt (playerSum g) (asEuint32 21))
                                  (asEuint32 1) (asEuint32 0)\<rparr>);
          g = makePubliclyDecryptable BustFlag g
      in g)"

text \<open>
  The grant of \<open>hit\<close> on the drawn card (line 249, \<open>FHE.allow(newCard, g.player)\<close>):
  on the handle that stands at the cursor.
\<close>

definition hit_grants :: "Game \<Rightarrow> (input \<Rightarrow> principal set) \<Rightarrow> (input \<Rightarrow> principal set)" where
  "hit_grants g a = grant (Card (deckHandles g ! unat (deckIndex g))) (Account (player g)) a"

text \<open>\<open>hit\<close> (lines 234-264).\<close>

definition hit :: "address \<Rightarrow> uint256 \<Rightarrow> Contract \<Rightarrow> error + Contract" where
  "hit sender gameId s =
     (let g = games s gameId in
      if \<not> (exists g \<and> player g = sender) then Inl (Require ''invalid player'')
      else if \<not> phase g = PlayerTurn then Inl (Require ''wrong phase'')
      else if \<not> deckIndex g < 52 then Inl (Require ''deck empty'')
      else Inr (s\<lparr>games := (games s)(gameId := hit_hand g),
                  inputAcl := hit_grants g (inputAcl s)\<rparr>))"

text \<open>The writes of \<open>stand\<close> (lines 273-297).\<close>

definition stand_hand :: "Game \<Rightarrow> Game" where
  "stand_hand g0 =
     (let g = set_dealer_sums
                (addCardToSum (dealerBaseSum g0) (dealerAceCount g0) (dealerHoleCard g0)) g0;
          g = allowThis DealerBaseSum g;
          g = allowThis DealerAceCount g;
          g = allow DealerSum (Account (player g)) g;
          g = allowThis DealerSum g;
          g = makePubliclyDecryptable DealerSum g;
          g = fresh ContinueFlag
                (g\<lparr>continueFlag := FHE_select (FHE_lt (dealerSum g) (asEuint32 17))
                                      (asEuint32 1) (asEuint32 0)\<rparr>);
          g = makePubliclyDecryptable ContinueFlag g;
          g = g\<lparr>phase := DealerTurn\<rparr>
      in g)"

text \<open>
  The grant of \<open>stand\<close> on the hole card (line 297, \<open>FHE.allowThis(g.dealerHoleCard)\<close>):
  to the contract, on the handle of deck position 3.
\<close>

definition stand_grants :: "Game \<Rightarrow> (input \<Rightarrow> principal set) \<Rightarrow> (input \<Rightarrow> principal set)" where
  "stand_grants g a = grant (Card (deckHandles g ! 3)) This a"

text \<open>\<open>stand\<close> (lines 266-298).\<close>

definition stand :: "address \<Rightarrow> uint256 \<Rightarrow> Contract \<Rightarrow> error + Contract" where
  "stand sender gameId s =
     (let g = games s gameId in
      if \<not> (exists g \<and> player g = sender) then Inl (Require ''invalid player'')
      else if \<not> phase g = PlayerTurn then Inl (Require ''wrong phase'')
      else Inr (s\<lparr>games := (games s)(gameId := stand_hand g),
                  inputAcl := stand_grants g (inputAcl s)\<rparr>))"

text \<open>The writes of \<open>dealerHit\<close> (lines 306-337).\<close>

definition dealerHit_hand :: "Game \<Rightarrow> Game" where
  "dealerHit_hand g0 =
     (let g = fresh ContinueFlag
                (g0\<lparr>continueFlag := FHE_select (FHE_lt (dealerSum g0) (asEuint32 17))
                                       (asEuint32 1) (asEuint32 0)\<rparr>);
          g = makePubliclyDecryptable ContinueFlag g;
          g = makePubliclyDecryptable DealerSum g;
          i = unat (deckIndex g);
          c = deck g ! i;
          g = g\<lparr>deckIndex := deckIndex g + 1\<rparr>;
          (newBaseSum, newAceCount, sumAfterCard) =
             addCardToSum (dealerBaseSum g) (dealerAceCount g) c;
          shouldAddCard = FHE_lt (dealerSum g) (asEuint32 17);
          g = fresh DealerBaseSum
                (g\<lparr>dealerBaseSum := FHE_select shouldAddCard newBaseSum (dealerBaseSum g)\<rparr>);
          g = fresh DealerAceCount
                (g\<lparr>dealerAceCount := FHE_select shouldAddCard newAceCount (dealerAceCount g)\<rparr>);
          g = fresh DealerSum
                (g\<lparr>dealerSum := FHE_select shouldAddCard sumAfterCard (dealerSum g)\<rparr>);
          g = allowThis DealerBaseSum g;
          g = allowThis DealerAceCount g;
          g = allow DealerSum (Account (player g)) g;
          g = allowThis DealerSum g
      in g)"

text \<open>
  The grant of \<open>dealerHit\<close> on the drawn card (line 337,
  \<open>FHE.makePubliclyDecryptable(c)\<close>): on the handle that stands at the cursor.
\<close>

definition dealerHit_grants :: "Game \<Rightarrow> (input \<Rightarrow> principal set) \<Rightarrow> (input \<Rightarrow> principal set)" where
  "dealerHit_grants g a = grant (Card (deckHandles g ! unat (deckIndex g))) Anyone a"

text \<open>\<open>dealerHit\<close> (lines 300-342); any account may call it.\<close>

definition dealerHit :: "address \<Rightarrow> uint256 \<Rightarrow> Contract \<Rightarrow> error + Contract" where
  "dealerHit sender gameId s =
     (let g = games s gameId in
      if \<not> (exists g \<and> phase g = DealerTurn) then Inl (Require ''invalid state'')
      else if \<not> deckIndex g < 52 then Inl (Require ''deck empty'')
      else Inr (s\<lparr>games := (games s)(gameId := dealerHit_hand g),
                  inputAcl := dealerHit_grants g (inputAcl s)\<rparr>))"

text \<open>\<open>setBustPhase\<close> (lines 345-350).\<close>

definition setBustPhase :: "address \<Rightarrow> uint256 \<Rightarrow> Contract \<Rightarrow> error + Contract" where
  "setBustPhase sender gameId s =
     (let g = games s gameId in
      if \<not> (exists g \<and> player g = sender) then Inl (Require ''invalid player'')
      else if \<not> phase g = PlayerTurn then Inl (Require ''wrong phase'')
      else Inr (s\<lparr>games := (games s)(gameId := g\<lparr>phase := GameEnding\<rparr>)\<rparr>))"

text \<open>The writes of \<open>endGame\<close> (lines 356-375).\<close>

definition endGame_hand :: "Game \<Rightarrow> Game" where
  "endGame_hand g0 =
     (let g = fresh WinFlag
                (g0\<lparr>winFlag := FHE_select
                     (FHE_or (FHE_gt (playerSum g0) (dealerSum g0))
                             (FHE_gt (dealerSum g0) (asEuint32 21)))
                     (asEuint32 1) (asEuint32 0)\<rparr>);
          g = makePubliclyDecryptable WinFlag g;
          g = g\<lparr>phase := Completed\<rparr>
      in g)"

text \<open>
  The grants of \<open>endGame\<close> on the cards (lines 356-362): the player's two cards and the
  hole card become public, and the hole card is granted to the owner.
\<close>

definition endGame_grants :: "Game \<Rightarrow> (input \<Rightarrow> principal set) \<Rightarrow> (input \<Rightarrow> principal set)" where
  "endGame_grants g a0 =
     (let a = grant (Card (deckHandles g ! 0)) Anyone a0;
          a = grant (Card (deckHandles g ! 1)) Anyone a;
          a = grant (Card (deckHandles g ! 3)) (Account (player g)) a;
          a = grant (Card (deckHandles g ! 3)) Anyone a
      in a)"

text \<open>\<open>endGame\<close> (lines 352-376); any account may call it.\<close>

definition endGame :: "address \<Rightarrow> uint256 \<Rightarrow> Contract \<Rightarrow> error + Contract" where
  "endGame sender gameId s =
     (let g = games s gameId in
      if \<not> (exists g \<and> (phase g = GameEnding \<or> phase g = DealerTurn))
      then Inl (Require ''invalid state'')
      else Inr (s\<lparr>games := (games s)(gameId := endGame_hand g),
                  inputAcl := endGame_grants g (inputAcl s)\<rparr>))"

text \<open>\<open>payoutWinner\<close> (lines 385-403).\<close>

definition payoutWinner :: "address \<Rightarrow> uint256 \<Rightarrow> bool \<Rightarrow> Contract \<Rightarrow> error + Contract" where
  "payoutWinner sender gameId playerWon s =
     (let g = games s gameId in
      if \<not> exists g then Inl (Require ''no game'')
      else if \<not> phase g = Completed then Inl (Require ''not finished'')
      else if \<not> player g = sender then Inl (Require ''only player can claim'')
      else if playerWon then
        (if \<not> unat (plainBetAmount g) * 2 < 2 ^ 256 then Inl Panic
         else let reward = plainBetAmount g * 2 in
           if \<not> unat (chipBalances s (player g)) + unat reward < 2 ^ 256 then Inl Panic
           else Inr (s\<lparr>chipBalances :=
                        (chipBalances s)(player g := chipBalances s (player g) + reward)\<rparr>))
      else Inr s)"

subsection \<open>The contract as a transition system\<close>

datatype call =
  StartGame "externalEuint8 list" bool externalEuint32 bool uint256
  | Hit uint256
  | Stand uint256
  | DealerHit uint256
  | SetBustPhase uint256
  | EndGame uint256
  | PayoutWinner uint256 bool
  | BuyChips uint256
  | SellChips uint256 bool
  | Receive uint256

fun step :: "address \<Rightarrow> call \<Rightarrow> Contract \<Rightarrow> error + Contract" where
  "step sender (StartGame encDeck attestation encryptedBet betProof plainBet) s =
     (case startGame sender encDeck attestation encryptedBet betProof plainBet s of
        Inl e \<Rightarrow> Inl e
      | Inr (gameId, s') \<Rightarrow> Inr s')"
| "step sender (Hit gameId) s = hit sender gameId s"
| "step sender (Stand gameId) s = stand sender gameId s"
| "step sender (DealerHit gameId) s = dealerHit sender gameId s"
| "step sender (SetBustPhase gameId) s = setBustPhase sender gameId s"
| "step sender (EndGame gameId) s = endGame sender gameId s"
| "step sender (PayoutWinner gameId playerWon) s = payoutWinner sender gameId playerWon s"
| "step sender (BuyChips val) s = buyChips sender val s"
| "step sender (SellChips chipAmount ok) s = sellChips sender chipAmount ok s"
| "step sender (Receive val) s = receive val s"

text \<open>A transaction that reverts leaves the storage as it was.\<close>

definition exec :: "address \<times> call \<Rightarrow> Contract \<Rightarrow> Contract" where
  "exec tx s = (case step (fst tx) (snd tx) s of Inl e \<Rightarrow> s | Inr s' \<Rightarrow> s')"

definition run :: "(address \<times> call) list \<Rightarrow> Contract \<Rightarrow> Contract" where
  "run txs s = fold exec txs s"

text \<open>The storages the contract can be in: those some sequence of calls leads to.\<close>

inductive reachable :: "Contract \<Rightarrow> bool" where
  reachable_init: "reachable init"
| reachable_step: "reachable s \<Longrightarrow> step sender c s = Inr s' \<Longrightarrow> reachable s'"

text \<open>The calls that play a game: they are the ones that do not touch the ledger.\<close>

fun game_call :: "call \<Rightarrow> bool" where
  "game_call (Hit gameId) = True"
| "game_call (Stand gameId) = True"
| "game_call (DealerHit gameId) = True"
| "game_call (SetBustPhase gameId) = True"
| "game_call (EndGame gameId) = True"
| "game_call c = False"

subsection \<open>A round, for the examples\<close>

text \<open>
  One account buys chips for a tenth of an ether and starts a game with the wager 100. Its cards
  are a ten and a king; the dealer shows a nine and hides a seven; the next cards of the
  deck are a five and an ace.
\<close>

definition alice :: address where
  "alice = 1"

definition bob :: address where
  "bob = 2"

definition demo_cards :: "euint8 list" where
  "demo_cards = [10, 13, 9, 7, 5, 1] @ replicate 46 2"

text \<open>The deck as the caller passes it, with 52 different handles, and the wager.\<close>

definition demo_deck :: "externalEuint8 list" where
  "demo_deck = zip [100..<152] demo_cards"

definition demo_bet :: externalEuint32 where
  "demo_bet = (99, 100)"

definition demo_start :: Contract where
  "demo_start = run [(alice, BuyChips 100000000000000000)] init"

definition demo_dealt :: Contract where
  "demo_dealt = run [(alice, StartGame demo_deck True demo_bet True 100)] demo_start"

definition demo_dealer :: Contract where
  "demo_dealer = run [(alice, Stand 1)] demo_dealt"

definition demo_bust :: Contract where
  "demo_bust = run [(alice, Hit 1)] demo_dealt"

definition demo_done :: Contract where
  "demo_done = run [(bob, DealerHit 1), (bob, EndGame 1)] demo_dealer"

text \<open>
  An account that holds \<open>2 ^ 255\<close> chips wagers all of them, stands, and the game is
  ended.
\<close>

definition big_stake :: uint256 where
  "big_stake = 2 ^ 255"

definition whale :: Contract where
  "whale = init\<lparr>chipBalances := (chipBalances init)(alice := big_stake)\<rparr>"

definition whale_done :: Contract where
  "whale_done =
     run [(alice, StartGame demo_deck True demo_bet True big_stake),
          (alice, Stand 1), (bob, EndGame 1)] whale"




subsection \<open>The invariant of the storage\<close>

text \<open>
  What holds of every game in every storage the contract can be in: a slot that holds no
  game was never written; the cursor of a game lies between 4 and 52; the player's sum is
  the soft-ace sum of the base sum and the ace count; the base sum is bounded by the
  cards drawn; and a bust flag of 1 goes with a sum above 21.
\<close>

definition hand_ok :: "Game \<Rightarrow> bool" where
  "hand_ok g =
     (if exists g
      then 4 \<le> deckIndex g \<and> deckIndex g \<le> 52 \<and> length (deck g) = 52
         \<and> playerSum g = calculateBlackjackSum (playerBaseSum g) (playerAceCount g)
         \<and> unat (playerBaseSum g) \<le> 255 * unat (deckIndex g)
         \<and> (bustFlag g = 0 \<or> (bustFlag g = 1 \<and> 21 < playerSum g))
      else g = no_game)"

definition storage_ok :: "Contract \<Rightarrow> bool" where
  "storage_ok s =
     (\<forall>gameId. hand_ok (games s gameId)
        \<and> (exists (games s gameId) \<longrightarrow> gameId < nextGameId s))"




section \<open>Properties\<close>

named_theorems fhe \<open>the plaintext meaning of the homomorphic primitives\<close>

lemmas fhe_defs [fhe] =
  asEuint8_def asEuint32_def FHE_eq_def FHE_or_def FHE_and_def FHE_add_def
  FHE_add_8_def FHE_gt_def FHE_lt_def FHE_le_def FHE_select_def

subsection \<open>Properties of the arithmetic module\<close>

lemma getBlackjackBaseValue_eq:
  "getBlackjackBaseValue c = (if c = 11 \<or> c = 12 \<or> c = 13 then 10 else ucast c)"
  by (simp add: getBlackjackBaseValue_def fhe)

lemma calculateBlackjackSum_eq:
  "calculateBlackjackSum b a = (if 0 < a \<and> b + 10 \<le> 21 then b + 10 else b)"
  by (simp add: calculateBlackjackSum_def Let_def fhe)

lemma addCardToSum_eq:
  "addCardToSum b a c =
     (b + getBlackjackBaseValue c, a + (if c = 1 then 1 else 0),
      calculateBlackjackSum (b + getBlackjackBaseValue c) (a + (if c = 1 then 1 else 0)))"
  by (simp add: addCardToSum_def Let_def fhe)

lemma card_code_cases:
  fixes c :: euint8
  assumes "1 \<le> unat c" and "unat c \<le> 13"
  shows "c \<in> {1, 2, 3, 4, 5, 6, 7, 8, 9, 10, 11, 12, 13}"
proof -
  have "unat c \<in> {1, 2, 3, 4, 5, 6, 7, 8, 9, 10, 11, 12, 13}"
    using assms by (simp only: insert_iff empty_iff) arith
  moreover have "c = of_nat (unat c)"
    by simp
  ultimately show ?thesis
    by (metis (no_types, lifting) insert_iff of_nat_numeral of_nat_1 empty_iff)
qed

subsection \<open>The operations, field by field\<close>

lemmas acl_ops = allow_def allowThis_def makePubliclyDecryptable_def fresh_def

lemma uint8_suc: "(x :: uint8) < 52 \<Longrightarrow> unat (x + 1) = unat x + 1"
  by (simp add: word_less_nat_alt unat_word_ariths)

lemma base_value_bound: "unat (getBlackjackBaseValue c) \<le> 255"
proof -
  have c: "unat c < 256" using unsigned_less [of c, where ?'a = nat] by simp
  then have "unat c < 2 ^ 32" by simp
  then have "unat (ucast c :: 32 word) = unat c"
    by (simp add: unsigned_ucast_eq take_bit_nat_eq_self)
  with c show ?thesis
    by (simp add: getBlackjackBaseValue_eq)
qed

lemma base_sum_grows:
  assumes "unat b \<le> 255 * n" and "n \<le> 52"
  shows "unat (b + getBlackjackBaseValue c) = unat b + unat (getBlackjackBaseValue c)"
proof -
  have "unat b + unat (getBlackjackBaseValue c) < 2 ^ 32"
    using assms base_value_bound [of c] by simp
  then show ?thesis by (simp add: unat_add_lem [THEN iffD1])
qed

lemma load_deck_fields:
  "player (load_deck is e g) = player g"
  "phase (load_deck is e g) = phase g"
  "exists (load_deck is e g) = exists g"
  "deckIndex (load_deck is e g) = deckIndex g"
  "plainBetAmount (load_deck is e g) = plainBetAmount g"
  "betAmount (load_deck is e g) = betAmount g"
  "betHandle (load_deck is e g) = betHandle g"
  "acl (load_deck is e g) = acl g"
  "length (deck (load_deck is e g)) = length (deck g)"
  "length (deckHandles (load_deck is e g)) = length (deckHandles g)"
  by (induction "is" e g rule: load_deck.induct; simp)+

lemma load_deck_nth:
  "i < length (deck g) \<Longrightarrow>
     deck (load_deck is e g) ! i = (if i \<in> set is then snd (e ! i) else deck g ! i)"
  "i < length (deckHandles g) \<Longrightarrow>
     deckHandles (load_deck is e g) ! i =
       (if i \<in> set is then fst (e ! i) else deckHandles g ! i)"
  by (induction "is" e g rule: load_deck.induct; auto simp: nth_list_update)+

lemma hit_hand_frame:
  "exists (hit_hand g) = exists g"
  "phase (hit_hand g) = phase g"
  "player (hit_hand g) = player g"
  "plainBetAmount (hit_hand g) = plainBetAmount g"
  "deck (hit_hand g) = deck g"
  "deckHandles (hit_hand g) = deckHandles g"
  "deckIndex (hit_hand g) = deckIndex g + 1"
  "dealerSum (hit_hand g) = dealerSum g"
  "dealerBaseSum (hit_hand g) = dealerBaseSum g"
  "dealerAceCount (hit_hand g) = dealerAceCount g"
  by (simp_all add: hit_hand_def Let_def acl_ops set_player_sums_def split: prod.splits)

lemma hit_hand_sums:
  "playerBaseSum (hit_hand g) = playerBaseSum g + getBlackjackBaseValue (deck g ! unat (deckIndex g))"
  "playerAceCount (hit_hand g) = playerAceCount g + (if deck g ! unat (deckIndex g) = 1 then 1 else 0)"
  "playerSum (hit_hand g) = calculateBlackjackSum (playerBaseSum (hit_hand g)) (playerAceCount (hit_hand g))"
  "bustFlag (hit_hand g) = (if 21 < playerSum (hit_hand g) then 1 else 0)"
  by (simp_all add: hit_hand_def Let_def acl_ops set_player_sums_def addCardToSum_eq fhe)

lemma uint8_suc_bounds:
  "(4 :: uint8) \<le> x \<Longrightarrow> x < 52 \<Longrightarrow> 4 \<le> x + 1 \<and> x + 1 \<le> 52 \<and> unat x \<noteq> 3"
  by (simp add: word_le_nat_alt word_less_nat_alt unat_word_ariths)

lemma hit_hand_ok:
  assumes "hand_ok g" and "exists g" and "deckIndex g < 52"
  shows "hand_ok (hit_hand g)"
proof -
  from assms have d: "4 \<le> deckIndex g" and b: "unat (playerBaseSum g) \<le> 255 * unat (deckIndex g)"
    and l: "length (deck g) = 52"
    by (simp_all add: hand_ok_def)
  have n: "unat (deckIndex g) \<le> 52"
    using assms(3) by (simp add: word_less_nat_alt)
  have "unat (playerBaseSum (hit_hand g)) \<le> 255 * unat (deckIndex g) + 255"
    using base_sum_grows [OF b n] base_value_bound b
    by (simp add: hit_hand_sums add_mono)
  then have "unat (playerBaseSum (hit_hand g)) \<le> 255 * unat (deckIndex (hit_hand g))"
    using assms(3) by (simp add: hit_hand_frame uint8_suc)
  then show ?thesis
    using uint8_suc_bounds [OF d assms(3)] assms(2) l
    by (simp add: hand_ok_def hit_hand_frame hit_hand_sums(3,4))
qed

lemma stand_hand_frame:
  "exists (stand_hand g) = exists g"
  "phase (stand_hand g) = DealerTurn"
  "player (stand_hand g) = player g"
  "plainBetAmount (stand_hand g) = plainBetAmount g"
  "deck (stand_hand g) = deck g"
  "deckHandles (stand_hand g) = deckHandles g"
  "deckIndex (stand_hand g) = deckIndex g"
  "playerSum (stand_hand g) = playerSum g"
  "playerBaseSum (stand_hand g) = playerBaseSum g"
  "playerAceCount (stand_hand g) = playerAceCount g"
  "bustFlag (stand_hand g) = bustFlag g"
  by (simp_all add: stand_hand_def Let_def acl_ops set_dealer_sums_def split: prod.splits)

lemma stand_hand_ok:
  assumes "hand_ok g" and "exists g" and "phase g = PlayerTurn"
  shows "hand_ok (stand_hand g)"
  using assms by (auto simp: hand_ok_def stand_hand_frame)

lemma dealerHit_hand_frame:
  "exists (dealerHit_hand g) = exists g"
  "phase (dealerHit_hand g) = phase g"
  "player (dealerHit_hand g) = player g"
  "plainBetAmount (dealerHit_hand g) = plainBetAmount g"
  "deck (dealerHit_hand g) = deck g"
  "deckHandles (dealerHit_hand g) = deckHandles g"
  "deckIndex (dealerHit_hand g) = deckIndex g + 1"
  "playerSum (dealerHit_hand g) = playerSum g"
  "playerBaseSum (dealerHit_hand g) = playerBaseSum g"
  "playerAceCount (dealerHit_hand g) = playerAceCount g"
  "bustFlag (dealerHit_hand g) = bustFlag g"
  by (simp_all add: dealerHit_hand_def Let_def acl_ops split: prod.splits)

lemma dealerHit_hand_sums:
  "dealerSum (dealerHit_hand g) =
     (if dealerSum g < 17
      then snd (snd (addCardToSum (dealerBaseSum g) (dealerAceCount g) (deck g ! unat (deckIndex g))))
      else dealerSum g)"
  "dealerBaseSum (dealerHit_hand g) =
     (if dealerSum g < 17
      then fst (addCardToSum (dealerBaseSum g) (dealerAceCount g) (deck g ! unat (deckIndex g)))
      else dealerBaseSum g)"
  "dealerAceCount (dealerHit_hand g) =
     (if dealerSum g < 17
      then fst (snd (addCardToSum (dealerBaseSum g) (dealerAceCount g) (deck g ! unat (deckIndex g))))
      else dealerAceCount g)"
  by (simp_all add: dealerHit_hand_def Let_def acl_ops fhe split: prod.splits)

lemma dealerHit_hand_ok:
  assumes "hand_ok g" and "exists g" and "deckIndex g < 52"
  shows "hand_ok (dealerHit_hand g)"
proof -
  from assms have d: "4 \<le> deckIndex g" and b: "unat (playerBaseSum g) \<le> 255 * unat (deckIndex g)"
    by (simp_all add: hand_ok_def)
  have "unat (playerBaseSum (dealerHit_hand g)) \<le> 255 * unat (deckIndex (dealerHit_hand g))"
    using b assms(3) by (simp add: dealerHit_hand_frame uint8_suc)
  then show ?thesis
    using uint8_suc_bounds [OF d assms(3)] assms(1,2)
    by (auto simp: hand_ok_def dealerHit_hand_frame)
qed

lemma endGame_hand_frame:
  "exists (endGame_hand g) = exists g"
  "phase (endGame_hand g) = Completed"
  "player (endGame_hand g) = player g"
  "plainBetAmount (endGame_hand g) = plainBetAmount g"
  "deck (endGame_hand g) = deck g"
  "deckHandles (endGame_hand g) = deckHandles g"
  "deckIndex (endGame_hand g) = deckIndex g"
  "playerSum (endGame_hand g) = playerSum g"
  "dealerSum (endGame_hand g) = dealerSum g"
  "playerBaseSum (endGame_hand g) = playerBaseSum g"
  "playerAceCount (endGame_hand g) = playerAceCount g"
  "bustFlag (endGame_hand g) = bustFlag g"
  by (simp_all add: endGame_hand_def Let_def acl_ops)

lemma endGame_hand_result:
  "winFlag (endGame_hand g) = (if dealerSum g < playerSum g \<or> 21 < dealerSum g then 1 else 0)"
  "acl (endGame_hand g) WinFlag = {Anyone}"
  by (simp_all add: endGame_hand_def Let_def acl_ops fhe)

lemma endGame_hand_ok:
  assumes "hand_ok g" and "exists g"
  shows "hand_ok (endGame_hand g)"
  using assms by (auto simp: hand_ok_def endGame_hand_frame)

lemma setBust_hand_ok:
  assumes "hand_ok g" and "exists g" and "phase g = PlayerTurn"
  shows "hand_ok (g\<lparr>phase := GameEnding\<rparr>)"
  using assms by (auto simp: hand_ok_def)

lemma load_deck_more:
  "playerSum (load_deck is e g) = playerSum g"
  "bustFlag (load_deck is e g) = bustFlag g"
  by (induction "is" e g rule: load_deck.induct; simp)+

lemma load_deck_all:
  assumes "length (deck g) = 52" and "length e = 52"
  shows "deck (load_deck [0..<52] e g) = map snd e"
proof (rule nth_equalityI)
  show "length (deck (load_deck [0..<52] e g)) = length (map snd e)"
    using assms by (simp add: load_deck_fields)
next
  fix i assume "i < length (deck (load_deck [0..<52] e g))"
  then have "i < 52" using assms by (simp add: load_deck_fields)
  then show "deck (load_deck [0..<52] e g) ! i = map snd e ! i"
    using assms by (simp add: load_deck_nth)
qed

lemma load_deck_handles:
  assumes "length (deckHandles g) = 52" and "length e = 52"
  shows "deckHandles (load_deck [0..<52] e g) = map fst e"
proof (rule nth_equalityI)
  show "length (deckHandles (load_deck [0..<52] e g)) = length (map fst e)"
    using assms by (simp add: load_deck_fields)
next
  fix i assume "i < length (deckHandles (load_deck [0..<52] e g))"
  then have "i < 52" using assms by (simp add: load_deck_fields)
  then show "deckHandles (load_deck [0..<52] e g) ! i = map fst e ! i"
    using assms by (simp add: load_deck_nth)
qed

lemmas start_hand_unfold =
  start_hand_def Let_def acl_ops set_player_sums_def set_dealer_sums_def
  load_deck_fields load_deck_more addCardToSum_eq fhe

lemma start_hand_frame:
  "exists (start_hand sender e bet w g0)"
  "phase (start_hand sender e bet w g0) = PlayerTurn"
  "player (start_hand sender e bet w g0) = sender"
  "plainBetAmount (start_hand sender e bet w g0) = w"
  "betAmount (start_hand sender e bet w g0) = snd bet"
  "deckIndex (start_hand sender e bet w g0) = 4"
  "bustFlag (start_hand sender e bet w g0) = 0"
  "winFlag (start_hand sender e bet w g0) = 0"
  "continueFlag (start_hand sender e bet w g0) = 0"
  "length (deck (start_hand sender e bet w g0)) = length (deck g0)"
  by (simp_all add: start_hand_unfold)

lemma start_hand_deck:
  "length (deck g0) = 52 \<Longrightarrow> length e = 52 \<Longrightarrow>
     deck (start_hand sender e bet w g0) = map snd e"
  "length (deckHandles g0) = 52 \<Longrightarrow> length e = 52 \<Longrightarrow>
     deckHandles (start_hand sender e bet w g0) = map fst e"
  by (simp_all add: start_hand_unfold load_deck_all load_deck_handles)

lemma start_hand_sums:
  "playerBaseSum (start_hand sender e bet w g0) =
     getBlackjackBaseValue (deck (start_hand sender e bet w g0) ! 0)
       + getBlackjackBaseValue (deck (start_hand sender e bet w g0) ! 1)"
  "playerSum (start_hand sender e bet w g0) =
     calculateBlackjackSum (playerBaseSum (start_hand sender e bet w g0))
       (playerAceCount (start_hand sender e bet w g0))"
  by (simp_all add: start_hand_unfold)

lemma start_hand_ok:
  assumes "length (deck g0) = 52" and "length e = 52"
  shows "hand_ok (start_hand sender e bet w g0)"
proof -
  let ?g = "start_hand sender e bet w g0"
  have "unat (playerBaseSum ?g) \<le> unat (getBlackjackBaseValue (deck ?g ! 0))
          + unat (getBlackjackBaseValue (deck ?g ! 1))"
    by (simp add: start_hand_sums(1) unat_word_ariths)
  then have "unat (playerBaseSum ?g) \<le> 255 * unat (deckIndex ?g)"
    using base_value_bound [of "deck ?g ! 0"] base_value_bound [of "deck ?g ! 1"]
    by (simp add: start_hand_frame)
  then show ?thesis
    using assms
    by (simp add: hand_ok_def start_hand_frame start_hand_sums(2))
qed

subsection \<open>The invariant holds of every reachable storage\<close>

lemma gameId_less_suc:
  fixes n :: uint256
  assumes "unat n + 1 < 2 ^ 256"
  shows "n < n + 1" and "x < n \<Longrightarrow> x < n + 1"
proof -
  have "unat (n + 1) = unat n + 1"
    using assms by (simp add: unat_add_lem [THEN iffD1])
  then show "n < n + 1" and "x < n \<Longrightarrow> x < n + 1"
    by (simp_all add: word_less_nat_alt)
qed

lemma no_game_ok: "hand_ok no_game"
  by (simp add: hand_ok_def no_game_def)

lemma init_ok: "storage_ok init"
  by (simp add: storage_ok_def init_def no_game_ok) (simp add: no_game_def)

lemma storage_okD:
  assumes "storage_ok s"
  shows "hand_ok (games s i)" and "exists (games s i) \<Longrightarrow> i < nextGameId s"
    and "\<not> exists (games s i) \<Longrightarrow> games s i = no_game"
proof -
  show "hand_ok (games s i)"
    using assms by (simp add: storage_ok_def)
  then show "\<not> exists (games s i) \<Longrightarrow> games s i = no_game"
    by (simp add: hand_ok_def)
  show "exists (games s i) \<Longrightarrow> i < nextGameId s"
    using assms by (simp add: storage_ok_def)
qed

lemma storage_ok_grants: "storage_ok (s\<lparr>inputAcl := a\<rparr>) = storage_ok s"
  by (simp add: storage_ok_def)

lemma storage_ok_update:
  assumes "storage_ok s" and "hand_ok g" and "exists (games s i)"
  shows "storage_ok (s\<lparr>games := (games s)(i := g)\<rparr>)"
  using assms by (simp add: storage_ok_def)

lemma startGame_ok:
  assumes "storage_ok s" and "startGame sender e att bet bp w s = Inr (i, s')"
  shows "storage_ok s'"
proof -
  from assms(2) have len: "length e = 52" and n: "unat (nextGameId s) + 1 < 2 ^ 256"
    and i: "i = nextGameId s"
    and s': "s' = s\<lparr>chipBalances := (chipBalances s)(sender := chipBalances s sender - w),
               nextGameId := nextGameId s + 1,
               games := (games s)(i := start_hand sender e bet w (games s i)),
               inputAcl := start_grants sender e bet (inputAcl s)\<rparr>"
    by (auto simp: startGame_def Let_def split: if_splits)
  have "\<not> exists (games s i)"
    using storage_okD(2) [OF assms(1), of i] i by auto
  then have "games s i = no_game"
    by (rule storage_okD(3) [OF assms(1)])
  then have "length (deck (games s i)) = 52"
    by (simp add: no_game_def)
  then have "hand_ok (start_hand sender e bet w (games s i))"
    using len by (rule start_hand_ok)
  then show ?thesis
    using assms(1) gameId_less_suc [OF n]
    by (auto simp: s' storage_ok_def i)
qed

lemma step_ok:
  assumes "storage_ok s" and "step sender c s = Inr s'"
  shows "storage_ok s'"
proof (cases c)
  case (StartGame e att bet bp w)
  with assms show ?thesis
    by (auto split: sum.splits dest: startGame_ok)
next
  case (Hit i)
  with assms show ?thesis
    by (auto simp: hit_def Let_def storage_ok_grants split: if_splits
        intro!: storage_ok_update hit_hand_ok storage_okD(1))
next
  case (Stand i)
  with assms show ?thesis
    by (auto simp: stand_def Let_def storage_ok_grants split: if_splits
        intro!: storage_ok_update stand_hand_ok storage_okD(1))
next
  case (DealerHit i)
  with assms show ?thesis
    by (auto simp: dealerHit_def Let_def storage_ok_grants split: if_splits
        intro!: storage_ok_update dealerHit_hand_ok storage_okD(1))
next
  case (SetBustPhase i)
  with assms show ?thesis
    by (auto simp: setBustPhase_def Let_def storage_ok_grants split: if_splits
        intro!: storage_ok_update setBust_hand_ok storage_okD(1))
next
  case (EndGame i)
  with assms show ?thesis
    by (auto simp: endGame_def Let_def storage_ok_grants split: if_splits
        intro!: storage_ok_update endGame_hand_ok storage_okD(1))
next
  case (PayoutWinner i won)
  with assms show ?thesis
    by (auto simp: payoutWinner_def Let_def storage_ok_def split: if_splits)
next
  case (BuyChips v)
  with assms show ?thesis
    by (auto simp: buyChips_def Let_def storage_ok_def split: if_splits)
next
  case (SellChips v ok)
  with assms show ?thesis
    by (auto simp: sellChips_def Let_def storage_ok_def split: if_splits)
next
  case (Receive v)
  with assms show ?thesis
    by (auto simp: receive_def storage_ok_def)
qed

lemma reachable_ok: "reachable s \<Longrightarrow> storage_ok s"
  by (induction rule: reachable.induct) (auto intro: init_ok step_ok)

lemma exec_reachable: "reachable s \<Longrightarrow> reachable (exec tx s)"
  by (cases tx) (auto simp: exec_def split: sum.splits intro: reachable_step)

lemma run_reachable: "reachable s \<Longrightarrow> reachable (run txs s)"
  unfolding run_def by (induction txs arbitrary: s) (auto intro: exec_reachable)

lemma start_hand_dealer:
  "dealerHoleCard (start_hand sender e bet w g0) = deck (start_hand sender e bet w g0) ! 3"
  "dealerBaseSum (start_hand sender e bet w g0) =
     getBlackjackBaseValue (deck (start_hand sender e bet w g0) ! 2)"
  "dealerAceCount (start_hand sender e bet w g0) =
     (if deck (start_hand sender e bet w g0) ! 2 = 1 then 1 else 0)"
  "dealerSum (start_hand sender e bet w g0) =
     calculateBlackjackSum (dealerBaseSum (start_hand sender e bet w g0))
       (dealerAceCount (start_hand sender e bet w g0))"
  "playerAceCount (start_hand sender e bet w g0) =
     (if deck (start_hand sender e bet w g0) ! 0 = 1 then 1 else 0)
       + (if deck (start_hand sender e bet w g0) ! 1 = 1 then 1 else 0)"
  by (simp_all add: start_hand_unfold)

lemma stand_hand_sums:
  "(dealerBaseSum (stand_hand g), dealerAceCount (stand_hand g), dealerSum (stand_hand g)) =
     addCardToSum (dealerBaseSum g) (dealerAceCount g) (dealerHoleCard g)"
  by (simp add: stand_hand_def Let_def acl_ops set_dealer_sums_def addCardToSum_eq fhe)

subsection \<open>What a successful call does to one game\<close>

lemma hitD:
  assumes "hit sender j s = Inr s'"
  shows "exists (games s j)" and "player (games s j) = sender"
    and "phase (games s j) = PlayerTurn" and "deckIndex (games s j) < 52"
    and "s' = s\<lparr>games := (games s)(j := hit_hand (games s j)),
                  inputAcl := hit_grants (games s j) (inputAcl s)\<rparr>"
  using assms by (simp_all add: hit_def Let_def split: if_splits)

lemma standD:
  assumes "stand sender j s = Inr s'"
  shows "exists (games s j)" and "player (games s j) = sender"
    and "phase (games s j) = PlayerTurn"
    and "s' = s\<lparr>games := (games s)(j := stand_hand (games s j)),
                  inputAcl := stand_grants (games s j) (inputAcl s)\<rparr>"
  using assms by (simp_all add: stand_def Let_def split: if_splits)

lemma dealerHitD:
  assumes "dealerHit sender j s = Inr s'"
  shows "exists (games s j)" and "phase (games s j) = DealerTurn"
    and "deckIndex (games s j) < 52"
    and "s' = s\<lparr>games := (games s)(j := dealerHit_hand (games s j)),
                  inputAcl := dealerHit_grants (games s j) (inputAcl s)\<rparr>"
  using assms by (simp_all add: dealerHit_def Let_def split: if_splits)

lemma setBustPhaseD:
  assumes "setBustPhase sender j s = Inr s'"
  shows "exists (games s j)" and "player (games s j) = sender"
    and "phase (games s j) = PlayerTurn"
    and "s' = s\<lparr>games := (games s)(j := (games s j)\<lparr>phase := GameEnding\<rparr>)\<rparr>"
  using assms by (simp_all add: setBustPhase_def Let_def split: if_splits)

lemma endGameD:
  assumes "endGame sender j s = Inr s'"
  shows "exists (games s j)"
    and "phase (games s j) = GameEnding \<or> phase (games s j) = DealerTurn"
    and "s' = s\<lparr>games := (games s)(j := endGame_hand (games s j)),
                  inputAcl := endGame_grants (games s j) (inputAcl s)\<rparr>"
  using assms by (simp_all add: endGame_def Let_def split: if_splits)

lemma startGameD:
  assumes "startGame sender e att bet bp w s = Inr (j, s')"
  shows "length e = 52" and "j = nextGameId s" and "unat (nextGameId s) + 1 < 2 ^ 256"
    and "s' = s\<lparr>chipBalances := (chipBalances s)(sender := chipBalances s sender - w),
               nextGameId := nextGameId s + 1,
               games := (games s)(j := start_hand sender e bet w (games s j)),
               inputAcl := start_grants sender e bet (inputAcl s)\<rparr>"
  using assms by (auto simp: startGame_def Let_def split: if_splits)

lemma ledger_games:
  "payoutWinner sender j won s = Inr s' \<Longrightarrow> games s' = games s"
  "buyChips sender v s = Inr s' \<Longrightarrow> games s' = games s"
  "sellChips sender v ok s = Inr s' \<Longrightarrow> games s' = games s"
  "receive v s = Inr s' \<Longrightarrow> games s' = games s"
  "payoutWinner sender j won s = Inr s' \<Longrightarrow> inputAcl s' = inputAcl s"
  "buyChips sender v s = Inr s' \<Longrightarrow> inputAcl s' = inputAcl s"
  "sellChips sender v ok s = Inr s' \<Longrightarrow> inputAcl s' = inputAcl s"
  "receive v s = Inr s' \<Longrightarrow> inputAcl s' = inputAcl s"
  by (auto simp: payoutWinner_def buyChips_def sellChips_def receive_def Let_def
      split: if_splits)

lemma step_game:
  assumes "storage_ok s" and "step sender c s = Inr s'"
  shows "games s' i = games s i
     \<or> (c = Hit i \<and> exists (games s i) \<and> player (games s i) = sender
          \<and> phase (games s i) = PlayerTurn
          \<and> deckIndex (games s i) < 52 \<and> games s' i = hit_hand (games s i))
     \<or> (c = Stand i \<and> exists (games s i) \<and> phase (games s i) = PlayerTurn
          \<and> games s' i = stand_hand (games s i))
     \<or> (c = DealerHit i \<and> exists (games s i) \<and> phase (games s i) = DealerTurn
          \<and> deckIndex (games s i) < 52 \<and> games s' i = dealerHit_hand (games s i))
     \<or> (c = SetBustPhase i \<and> exists (games s i) \<and> phase (games s i) = PlayerTurn
          \<and> games s' i = (games s i)\<lparr>phase := GameEnding\<rparr>)
     \<or> (c = EndGame i \<and> exists (games s i)
          \<and> (phase (games s i) = GameEnding \<or> phase (games s i) = DealerTurn)
          \<and> games s' i = endGame_hand (games s i))
     \<or> (\<exists>e att bet bp w. c = StartGame e att bet bp w \<and> length e = 52
          \<and> games s i = no_game \<and> games s' i = start_hand sender e bet w no_game)"
proof (cases c)
  case (StartGame e att bet bp w)
  with assms(2) obtain j where st: "startGame sender e att bet bp w s = Inr (j, s')"
    by (auto split: sum.splits)
  note d = startGameD [OF st]
  have "\<not> exists (games s j)"
    using storage_okD(2) [OF assms(1), of j] d(2) by auto
  then have "games s j = no_game"
    by (rule storage_okD(3) [OF assms(1)])
  then show ?thesis
    using StartGame d(1) by (cases "i = j") (simp_all add: d(4))
next
  case (Hit j)
  with assms(2) have h: "hit sender j s = Inr s'" by simp
  show ?thesis
    using hitD [OF h] Hit by (cases "i = j") simp_all
next
  case (Stand j)
  with assms(2) have h: "stand sender j s = Inr s'" by simp
  show ?thesis
    using standD [OF h] Stand by (cases "i = j") simp_all
next
  case (DealerHit j)
  with assms(2) have h: "dealerHit sender j s = Inr s'" by simp
  show ?thesis
    using dealerHitD [OF h] DealerHit by (cases "i = j") simp_all
next
  case (SetBustPhase j)
  with assms(2) have h: "setBustPhase sender j s = Inr s'" by simp
  show ?thesis
    using setBustPhaseD [OF h] SetBustPhase by (cases "i = j") simp_all
next
  case (EndGame j)
  with assms(2) have h: "endGame sender j s = Inr s'" by simp
  show ?thesis
    using endGameD [OF h] EndGame by (cases "i = j") simp_all
next
  case (PayoutWinner j won)
  with assms(2) show ?thesis
    by (simp add: ledger_games)
next
  case (BuyChips v)
  with assms(2) show ?thesis
    by (simp add: ledger_games)
next
  case (SellChips v ok)
  with assms(2) show ?thesis
    by (simp add: ledger_games)
next
  case (Receive v)
  with assms(2) show ?thesis
    by (simp add: ledger_games)
qed

subsection \<open>The cursor\<close>

lemma exec_cases:
  obtains "exec (a, c) s = s" and "\<exists>e. step a c s = Inl e"
  | s' where "exec (a, c) s = s'" and "step a c s = Inr s'"
  by (cases "step a c s") (auto simp: exec_def)

lemma hand_ok_cursor:
  assumes "hand_ok g"
  shows "unat (deckIndex g) \<le> 52" and "exists g \<Longrightarrow> 4 \<le> unat (deckIndex g)"
  using assms
  by (cases "exists g"; simp add: hand_ok_def word_le_nat_alt no_game_def)+

lemma step_cursor:
  assumes "storage_ok s" and "step sender c s = Inr s'"
  shows "unat (deckIndex (games s i)) \<le> unat (deckIndex (games s' i))"
    and "exists (games s i) \<Longrightarrow>
           unat (deckIndex (games s' i)) =
             (if c = Hit i \<or> c = DealerHit i then unat (deckIndex (games s i)) + 1
              else unat (deckIndex (games s i)))"
proof -
  have "unat (deckIndex (games s i)) \<le> unat (deckIndex (games s' i))
     \<and> (exists (games s i) \<longrightarrow>
           unat (deckIndex (games s' i)) =
             (if c = Hit i \<or> c = DealerHit i then unat (deckIndex (games s i)) + 1
              else unat (deckIndex (games s i))))"
  proof (cases c)
    case (StartGame e att bet bp w)
    with assms(2) obtain j where st: "startGame sender e att bet bp w s = Inr (j, s')"
      by (auto split: sum.splits)
    note d = startGameD [OF st]
    have "\<not> exists (games s j)"
      using storage_okD(2) [OF assms(1), of j] d(2) by auto
    then have "games s j = no_game"
      by (rule storage_okD(3) [OF assms(1)])
    then show ?thesis
      using StartGame by (cases "i = j") (simp_all add: d(4) start_hand_frame no_game_def)
  next
    case (Hit j)
    with assms(2) have h: "hit sender j s = Inr s'" by simp
    show ?thesis
      using hitD [OF h] Hit by (cases "i = j") (simp_all add: hit_hand_frame uint8_suc)
  next
    case (Stand j)
    with assms(2) have h: "stand sender j s = Inr s'" by simp
    show ?thesis
      using standD [OF h] Stand by (cases "i = j") (simp_all add: stand_hand_frame)
  next
    case (DealerHit j)
    with assms(2) have h: "dealerHit sender j s = Inr s'" by simp
    show ?thesis
      using dealerHitD [OF h] DealerHit
      by (cases "i = j") (simp_all add: dealerHit_hand_frame uint8_suc)
  next
    case (SetBustPhase j)
    with assms(2) have h: "setBustPhase sender j s = Inr s'" by simp
    show ?thesis
      using setBustPhaseD [OF h] SetBustPhase by (cases "i = j") simp_all
  next
    case (EndGame j)
    with assms(2) have h: "endGame sender j s = Inr s'" by simp
    show ?thesis
      using endGameD [OF h] EndGame by (cases "i = j") (simp_all add: endGame_hand_frame)
  next
    case (PayoutWinner j won)
    with assms(2) show ?thesis by (simp add: ledger_games)
  next
    case (BuyChips v)
    with assms(2) show ?thesis by (simp add: ledger_games)
  next
    case (SellChips v ok)
    with assms(2) show ?thesis by (simp add: ledger_games)
  next
    case (Receive v)
    with assms(2) show ?thesis by (simp add: ledger_games)
  qed
  then show "unat (deckIndex (games s i)) \<le> unat (deckIndex (games s' i))"
    and "exists (games s i) \<Longrightarrow>
           unat (deckIndex (games s' i)) =
             (if c = Hit i \<or> c = DealerHit i then unat (deckIndex (games s i)) + 1
              else unat (deckIndex (games s i)))"
    by simp_all
qed

lemma run_cursor:
  "reachable s \<Longrightarrow> unat (deckIndex (games s i)) \<le> unat (deckIndex (games (run txs s) i))"
proof (induction txs arbitrary: s)
  case Nil
  then show ?case by (simp add: run_def)
next
  case (Cons tx txs)
  obtain a c where tx: "tx = (a, c)" by (cases tx)
  have r: "reachable (exec tx s)"
    using Cons.prems by (rule exec_reachable)
  have "unat (deckIndex (games s i)) \<le> unat (deckIndex (games (exec tx s) i))"
    unfolding tx
    by (rule exec_cases [of a c s])
       (auto dest: step_cursor(1) [OF reachable_ok [OF Cons.prems]])
  also have "\<dots> \<le> unat (deckIndex (games (run txs (exec tx s)) i))"
    using r by (rule Cons.IH)
  finally show ?case by (simp add: run_def)
qed

subsection \<open>Completed games\<close>

lemma completed_step:
  assumes "storage_ok s" and "phase (games s i) = Completed" and "step a c s = Inr s'"
  shows "games s' i = games s i"
  using step_game [OF assms(1,3), of i] assms(2)
  by (auto simp: no_game_def)

lemma completed_exec:
  assumes "reachable s" and "phase (games s i) = Completed"
  shows "games (exec (a, c) s) i = games s i"
  by (rule exec_cases [of a c s])
     (auto dest: completed_step [OF reachable_ok [OF assms(1)] assms(2)])

lemma completed_run:
  "reachable s \<Longrightarrow> phase (games s i) = Completed \<Longrightarrow> games (run txs s) i = games s i"
proof (induction txs arbitrary: s)
  case Nil
  then show ?case by (simp add: run_def)
next
  case (Cons tx txs)
  obtain a c where tx: "tx = (a, c)" by (cases tx)
  have same: "games (exec tx s) i = games s i"
    unfolding tx using Cons.prems by (rule completed_exec)
  have "games (run txs (exec tx s)) i = games (exec tx s) i"
    using exec_reachable [OF Cons.prems(1)] Cons.prems(2) same
    by (intro Cons.IH) simp_all
  with same show ?case by (simp add: run_def)
qed

subsection \<open>Busted hands\<close>

lemma soft_sum_bust:
  assumes "21 < calculateBlackjackSum b a"
  shows "calculateBlackjackSum b a = b" and "21 < b"
  using assms by (auto simp: calculateBlackjackSum_eq split: if_splits)

lemma no_promotion:
  assumes "unat b \<le> 255 * n" and "n \<le> 53" and "21 < b"
  shows "calculateBlackjackSum b a = b"
proof -
  have "unat b + unat (10 :: 32 word) < 2 ^ LENGTH(32)"
    using assms(1,2) by simp
  then have "unat (b + 10) = unat b + unat (10 :: 32 word)"
    by (simp only: unat_add_lem [THEN iffD1])
  moreover have "21 < unat b"
    using assms(3) by (simp add: word_less_nat_alt)
  ultimately have "\<not> b + 10 \<le> 21"
    by (simp add: word_le_nat_alt)
  then show ?thesis
    by (simp add: calculateBlackjackSum_eq)
qed

lemma bust_persists:
  assumes "unat b \<le> 255 * n" and "n \<le> 52" and "21 < calculateBlackjackSum b a"
  shows "21 < calculateBlackjackSum (b + getBlackjackBaseValue c) a'"
proof -
  let ?b' = "b + getBlackjackBaseValue c"
  have u: "unat ?b' = unat b + unat (getBlackjackBaseValue c)"
    using assms(1,2) by (rule base_sum_grows)
  have "21 < unat b"
    using soft_sum_bust(2) [OF assms(3)] by (simp add: word_less_nat_alt)
  then have gt: "21 < ?b'"
    using u by (simp add: word_less_nat_alt)
  have "unat ?b' \<le> 255 * Suc n"
    using u assms(1) base_value_bound [of c] by simp
  then have "calculateBlackjackSum ?b' a' = ?b'"
    using assms(2) gt by (intro no_promotion [of _ "Suc n"]) simp_all
  with gt show ?thesis by simp
qed

lemma base_sum_mono:
  assumes "unat b \<le> 255 * n" and "n \<le> 52"
  shows "b \<le> b + getBlackjackBaseValue c"
  using base_sum_grows [OF assms, of c] by (simp add: word_le_nat_alt)

lemma hit_hand_bust:
  assumes "hand_ok g" and "exists g" and "deckIndex g < 52"
  shows "playerBaseSum g \<le> playerBaseSum (hit_hand g)"
    and "21 < playerSum g \<Longrightarrow> 21 < playerSum (hit_hand g)"
    and "21 < playerSum g \<Longrightarrow> bustFlag (hit_hand g) = 1"
proof -
  from assms have b: "unat (playerBaseSum g) \<le> 255 * unat (deckIndex g)"
    and p: "playerSum g = calculateBlackjackSum (playerBaseSum g) (playerAceCount g)"
    by (simp_all add: hand_ok_def)
  have n: "unat (deckIndex g) \<le> 52"
    using assms(3) by (simp add: word_less_nat_alt)
  show "playerBaseSum g \<le> playerBaseSum (hit_hand g)"
    using base_sum_mono [OF b n] by (simp add: hit_hand_sums)
  show *: "21 < playerSum (hit_hand g)" if "21 < playerSum g"
    using bust_persists [OF b n] that by (simp add: hit_hand_sums p)
  show "bustFlag (hit_hand g) = 1" if "21 < playerSum g"
    using * [OF that] by (simp add: hit_hand_sums(4))
qed

lemma step_bust:
  assumes "storage_ok s" and "step a c s = Inr s'"
  shows "21 < playerSum (games s i) \<Longrightarrow> 21 < playerSum (games s' i)"
    and "bustFlag (games s i) = 1 \<Longrightarrow> bustFlag (games s' i) = 1"
proof -
  note ok = storage_okD(1) [OF assms(1), of i]
  have flag: "21 < playerSum (games s i)" if "bustFlag (games s i) = 1"
    using ok that by (cases "exists (games s i)") (auto simp: hand_ok_def no_game_def)
  show "21 < playerSum (games s' i)" if "21 < playerSum (games s i)"
    using step_game [OF assms, of i] that hit_hand_bust(2) [OF ok]
    by (auto simp: stand_hand_frame dealerHit_hand_frame endGame_hand_frame no_game_def)
  show "bustFlag (games s' i) = 1" if "bustFlag (games s i) = 1"
    using step_game [OF assms, of i] that hit_hand_bust(3) [OF ok] flag [OF that]
    by (auto simp: stand_hand_frame dealerHit_hand_frame endGame_hand_frame no_game_def)
qed

lemma run_bust:
  "reachable s \<Longrightarrow> 21 < playerSum (games s i) \<Longrightarrow> 21 < playerSum (games (run txs s) i)"
proof (induction txs arbitrary: s)
  case Nil
  then show ?case by (simp add: run_def)
next
  case (Cons tx txs)
  obtain a c where tx: "tx = (a, c)" by (cases tx)
  have "21 < playerSum (games (exec tx s) i)"
    unfolding tx
    by (rule exec_cases [of a c s])
       (use Cons.prems in \<open>auto dest: step_bust(1) [OF reachable_ok [OF Cons.prems(1)]]\<close>)
  then have "21 < playerSum (games (run txs (exec tx s)) i)"
    using exec_reachable [OF Cons.prems(1)] by (intro Cons.IH)
  then show ?case by (simp add: run_def)
qed

lemma run_bust_flag:
  "reachable s \<Longrightarrow> bustFlag (games s i) = 1 \<Longrightarrow> bustFlag (games (run txs s) i) = 1"
proof (induction txs arbitrary: s)
  case Nil
  then show ?case by (simp add: run_def)
next
  case (Cons tx txs)
  obtain a c where tx: "tx = (a, c)" by (cases tx)
  have "bustFlag (games (exec tx s) i) = 1"
    unfolding tx
    by (rule exec_cases [of a c s])
       (use Cons.prems in \<open>auto dest: step_bust(2) [OF reachable_ok [OF Cons.prems(1)]]\<close>)
  then have "bustFlag (games (run txs (exec tx s)) i) = 1"
    using exec_reachable [OF Cons.prems(1)] by (intro Cons.IH)
  then show ?case by (simp add: run_def)
qed

subsection \<open>The grants on the cards\<close>


























subsection \<open>The ledger\<close>

lemma exec_game_call:
  assumes "game_call c"
  shows "chipBalances (exec (a, c) s) = chipBalances s"
    and "player (games (exec (a, c) s) i) = player (games s i)"
    and "plainBetAmount (games (exec (a, c) s) i) = plainBetAmount (games s i)"
    and "exists (games (exec (a, c) s) i) = exists (games s i)"
  using assms
  by (cases c;
      simp add: exec_def hit_def stand_def dealerHit_def setBustPhase_def endGame_def Let_def
        hit_hand_frame stand_hand_frame dealerHit_hand_frame endGame_hand_frame)+

lemma run_game_calls:
  assumes "list_all (game_call \<circ> snd) txs"
  shows "chipBalances (run txs s) = chipBalances s"
    and "player (games (run txs s) i) = player (games s i)"
    and "plainBetAmount (games (run txs s) i) = plainBetAmount (games s i)"
    and "exists (games (run txs s) i) = exists (games s i)"
  using assms unfolding run_def
  by (induction txs arbitrary: s; simp add: exec_game_call split_paired_all)+

lemma startGame_ledger:
  assumes "0 < w" and "w \<le> chipBalances s sender"
    and "length encDeck = 52" and "attestation" and "betProof"
    and "unat (nextGameId s) + 1 < 2 ^ 256"
  shows "startGame sender encDeck attestation encryptedBet betProof w s =
           Inr (nextGameId s,
             s\<lparr>chipBalances := (chipBalances s)(sender := chipBalances s sender - w),
               nextGameId := nextGameId s + 1,
               games := (games s)(nextGameId s :=
                 start_hand sender encDeck encryptedBet w (games s (nextGameId s))),
               inputAcl := start_grants sender encDeck encryptedBet (inputAcl s)\<rparr>)"
  using assms by (simp add: startGame_def Let_def)

lemma payout_sums:
  fixes b w :: uint256
  assumes "w \<le> b" and "unat b + unat w < 2 ^ 256"
  shows "unat (b - w) = unat b - unat w" and "unat w * 2 < 2 ^ 256"
    and "unat (w * 2) = unat w * 2"
    and "unat (b - w) + unat (w * 2) < 2 ^ 256"
    and "unat (b - w + w * 2) = unat b + unat w"
proof -
  have le: "unat w \<le> unat b"
    using assms(1) by (simp add: word_le_nat_alt)
  show s: "unat (b - w) = unat b - unat w"
    using assms(1) by (rule unat_sub)
  show d: "unat w * 2 < 2 ^ 256"
    using le assms(2) by simp
  then have "unat w * unat (2 :: uint256) < 2 ^ LENGTH(256)"
    by simp
  then have "unat (w * 2) = unat w * unat (2 :: uint256)"
    by (simp only: unat_mult_lem [THEN iffD1])
  then show m: "unat (w * 2) = unat w * 2"
    by simp
  show a: "unat (b - w) + unat (w * 2) < 2 ^ 256"
    using le assms(2) by (simp add: s m)
  then have "unat (b - w) + unat (w * 2) < 2 ^ LENGTH(256)"
    by simp
  then have "unat (b - w + w * 2) = unat (b - w) + unat (w * 2)"
    by (simp only: unat_add_lem [THEN iffD1])
  then show "unat (b - w + w * 2) = unat b + unat w"
    using le by (simp add: s m)
qed

lemma payoutWinner_completed:
  assumes "exists (games s i)" and "phase (games s i) = Completed"
    and "player (games s i) = sender" and "plainBetAmount (games s i) = w"
    and "unat w * 2 < 2 ^ 256" and "unat (chipBalances s sender) + unat (w * 2) < 2 ^ 256"
  shows "payoutWinner sender i True s =
           Inr (s\<lparr>chipBalances := (chipBalances s)(sender := chipBalances s sender + w * 2)\<rparr>)"
    and "payoutWinner sender i False s = Inr s"
  using assms by (simp_all add: payoutWinner_def Let_def)

subsection \<open>The example round\<close>

lemma demo_cards_length: "length demo_cards = 52"
  by (simp add: demo_cards_def)

lemma demo_deck_length: "length demo_deck = 52"
  by (simp add: demo_deck_def demo_cards_length)

lemma demo_deck_maps: "map snd demo_deck = demo_cards" "map fst demo_deck = [100..<152]"
  by (simp_all add: demo_deck_def demo_cards_length)

lemma demo_deck_nth:
  "demo_cards ! 0 = 10" "demo_cards ! 1 = 13" "demo_cards ! 2 = 9" "demo_cards ! 3 = 7"
  "demo_cards ! 4 = 5" "demo_cards ! 5 = 1" "demo_cards ! Suc 0 = 13"
  by (simp_all add: demo_cards_def)

lemma demo_start_eq:
  "demo_start =
     init\<lparr>chipBalances := (chipBalances init)(alice := 1000),
          ethBalance := 100000000000000000\<rparr>"
  by (simp add: demo_start_def run_def exec_def buyChips_def CHIP_PER_ETH_def ether_def
      init_def Let_def)

lemma demo_start_game:
  "startGame alice demo_deck True demo_bet True 100 demo_start =
     Inr (1, init\<lparr>chipBalances := (chipBalances init)(alice := 900),
          ethBalance := 100000000000000000,
          nextGameId := 2,
          games := (games init)(1 := start_hand alice demo_deck demo_bet 100 no_game),
          inputAcl := start_grants alice demo_deck demo_bet (inputAcl init)\<rparr>)"
  by (simp add: demo_start_eq startGame_def demo_deck_length init_def Let_def)

lemma demo_dealt_eq:
  "demo_dealt =
     init\<lparr>chipBalances := (chipBalances init)(alice := 900),
          ethBalance := 100000000000000000,
          nextGameId := 2,
          games := (games init)(1 := start_hand alice demo_deck demo_bet 100 no_game),
          inputAcl := start_grants alice demo_deck demo_bet (inputAcl init)\<rparr>"
  by (simp add: demo_dealt_def run_def exec_def demo_start_game)

lemma demo_hand_deck:
  "deck (start_hand alice demo_deck demo_bet 100 no_game) = demo_cards"
  "deckHandles (start_hand alice demo_deck demo_bet 100 no_game) = [100..<152]"
  by (simp_all add: start_hand_deck demo_deck_length demo_deck_maps no_game_def)

lemmas demo_hand =
  start_hand_frame start_hand_sums start_hand_dealer demo_hand_deck demo_deck_nth
  getBlackjackBaseValue_eq calculateBlackjackSum_eq

lemma demo_dealt_hand:
  "games demo_dealt 1 = start_hand alice demo_deck demo_bet 100 no_game"
  by (simp add: demo_dealt_eq init_def)

lemma demo_dealt_sums:
  "playerSum (games demo_dealt 1) = 20" "dealerSum (games demo_dealt 1) = 9"
  "phase (games demo_dealt 1) = PlayerTurn" "exists (games demo_dealt 1)"
  "player (games demo_dealt 1) = alice" "deckIndex (games demo_dealt 1) = 4"
  by (simp_all add: demo_dealt_hand demo_hand)

lemma demo_dealer_eq:
  "demo_dealer = demo_dealt\<lparr>games := (games demo_dealt)(1 := stand_hand (games demo_dealt 1)),
      inputAcl := stand_grants (games demo_dealt 1) (inputAcl demo_dealt)\<rparr>"
  by (simp add: demo_dealer_def run_def exec_def stand_def Let_def demo_dealt_sums)

lemma demo_dealer_hand:
  "exists (games demo_dealer 1)" "phase (games demo_dealer 1) = DealerTurn"
  "player (games demo_dealer 1) = alice"
  "deckIndex (games demo_dealer 1) = 4" "deck (games demo_dealer 1) = demo_cards"
  "dealerBaseSum (games demo_dealer 1) = 16" "dealerAceCount (games demo_dealer 1) = 0"
  "dealerSum (games demo_dealer 1) = 16" "playerSum (games demo_dealer 1) = 20"
  "deckHandles (games demo_dealer 1) = [100..<152]"
  using stand_hand_sums [of "games demo_dealt 1"]
  by (simp_all add: demo_dealer_eq stand_hand_frame demo_dealt_sums)
     (simp_all add: demo_dealt_hand demo_hand addCardToSum_eq)

lemma demo_settled:
  "phase (games (run [(alice, Stand 1), (bob, EndGame 1)] demo_dealt) 1) = Completed"
  by (simp add: run_def exec_def stand_def endGame_def Let_def demo_dealt_sums
      stand_hand_frame endGame_hand_frame)

lemma big_stake_facts:
  "0 < big_stake" "\<not> unat big_stake * 2 < 2 ^ 256" "unat big_stake = 2 ^ 255"
  by (simp_all add: big_stake_def)

lemma whale_start:
  "startGame alice demo_deck True demo_bet True big_stake whale =
     Inr (1, init\<lparr>chipBalances := (chipBalances init)(alice := 0),
          nextGameId := 2,
          games := (games init)(1 := start_hand alice demo_deck demo_bet big_stake no_game),
          inputAcl := start_grants alice demo_deck demo_bet (inputAcl init)\<rparr>)"
  by (simp add: whale_def startGame_def demo_deck_length init_def Let_def big_stake_facts)

lemma whale_done_hand:
  "games whale_done 1 =
     endGame_hand (stand_hand (start_hand alice demo_deck demo_bet big_stake no_game))"
  "chipBalances whale_done alice = 0"
  by (simp_all add: whale_done_def run_def exec_def whale_start)
     (simp_all add: stand_def endGame_def Let_def init_def start_hand_frame stand_hand_frame)

lemma demo_reachable:
  "reachable demo_start" "reachable demo_dealt" "reachable demo_dealer"
  "reachable demo_bust" "reachable demo_done"
  unfolding demo_start_def demo_dealt_def demo_dealer_def demo_bust_def demo_done_def
  by (intro run_reachable reachable_init)+

lemma demo_done_eq:
  "demo_done = demo_dealer\<lparr>games := (games demo_dealer)(1 :=
      endGame_hand (dealerHit_hand (games demo_dealer 1))),
      inputAcl := endGame_grants (dealerHit_hand (games demo_dealer 1))
        (dealerHit_grants (games demo_dealer 1) (inputAcl demo_dealer))\<rparr>"
  by (simp add: demo_done_def run_def exec_def dealerHit_def endGame_def Let_def
      demo_dealer_hand dealerHit_hand_frame)

lemma demo_done_hand:
  "phase (games demo_done 1) = Completed" "exists (games demo_done 1)"
  "player (games demo_done 1) = alice"
  by (simp_all add: demo_done_eq endGame_hand_frame dealerHit_hand_frame demo_dealer_hand)

lemma demo_bust_eq:
  "demo_bust = demo_dealt\<lparr>games := (games demo_dealt)(1 := hit_hand (games demo_dealt 1)),
      inputAcl := hit_grants (games demo_dealt 1) (inputAcl demo_dealt)\<rparr>"
  by (simp add: demo_bust_def run_def exec_def hit_def Let_def demo_dealt_sums)

lemma demo_bust_hand:
  "exists (games demo_bust 1)" "phase (games demo_bust 1) = PlayerTurn"
  "player (games demo_bust 1) = alice" "deckIndex (games demo_bust 1) = 5"
  "playerSum (games demo_bust 1) = 25" "bustFlag (games demo_bust 1) = 1"
  by (simp_all add: demo_bust_eq hit_hand_frame hit_hand_sums demo_dealt_sums)
     (simp_all add: demo_dealt_hand demo_hand)


















subsection \<open>The claims\<close>

text \<open>
  C6. For every raw card code from 1 to 13, \<open>getBlackjackBaseValue\<close> returns 10 for the
  codes 11, 12 and 13, 1 for the code 1, and the code itself for the codes 2 to 10.
\<close>

theorem C6_getBlackjackBaseValue:
  assumes "1 \<le> unat c" and "unat c \<le> 13"
  shows "unat (getBlackjackBaseValue c) = (if 11 \<le> unat c then 10 else unat c)"
  using card_code_cases [OF assms]
  by (auto simp: getBlackjackBaseValue_eq)

theorem C6_getBlackjackBaseValue_witness:
  "map (\<lambda>c. unat (getBlackjackBaseValue c)) [1, 2, 3, 4, 5, 6, 7, 8, 9, 10, 11, 12, 13]
     = [1, 2, 3, 4, 5, 6, 7, 8, 9, 10, 10, 10, 10]"
  using C6_getBlackjackBaseValue [of 1] C6_getBlackjackBaseValue [of 2]
    C6_getBlackjackBaseValue [of 3] C6_getBlackjackBaseValue [of 4]
    C6_getBlackjackBaseValue [of 5] C6_getBlackjackBaseValue [of 6]
    C6_getBlackjackBaseValue [of 7] C6_getBlackjackBaseValue [of 8]
    C6_getBlackjackBaseValue [of 9] C6_getBlackjackBaseValue [of 10]
    C6_getBlackjackBaseValue [of 11] C6_getBlackjackBaseValue [of 12]
    C6_getBlackjackBaseValue [of 13]
  by simp

text \<open>
  C1. For every base sum, ace count and card code, \<open>addCardToSum\<close> returns the base sum
  plus the card's base value, the ace count plus one exactly for the code 1, and as the
  final sum the new base sum plus 10 exactly when the new ace count is positive and
  the new base sum plus 10 is at most 21, and the new base sum otherwise. The sums are
  those of \<open>euint32\<close>. Two aces on an empty hand give the final sum 12.
\<close>

theorem C1_addCardToSum:
  "addCardToSum baseSum aceCount c = (newBaseSum, newAceCount, finalSum) \<Longrightarrow>
     newBaseSum = baseSum + getBlackjackBaseValue c
     \<and> newAceCount = (if c = 1 then aceCount + 1 else aceCount)
     \<and> finalSum = (if 0 < newAceCount \<and> newBaseSum + 10 \<le> 21 then newBaseSum + 10 else newBaseSum)
     \<and> (finalSum = newBaseSum + 10 \<longleftrightarrow> 0 < newAceCount \<and> newBaseSum + 10 \<le> 21)
     \<and> (case addCardToSum 0 0 1 of (b1, a1, f1) \<Rightarrow> addCardToSum b1 a1 1) = (2, 2, 12)"
  by (auto simp: addCardToSum_eq getBlackjackBaseValue_eq calculateBlackjackSum_eq)

theorem C1_addCardToSum_witness:
  "addCardToSum 10 0 1 = (11, 1, 21) \<and> addCardToSum 11 1 13 = (21, 1, 21)
   \<and> addCardToSum 0 0 1 = (1, 1, 11) \<and> addCardToSum 1 1 1 = (2, 2, 12)"
  using C1_addCardToSum [of 10 0 1 11 1 21] C1_addCardToSum [of 11 1 13 21 1 21]
  by (simp add: addCardToSum_eq getBlackjackBaseValue_eq calculateBlackjackSum_eq)

text \<open>
  C2. For every game in the phase \<open>DealerTurn\<close> whose cursor is below 52, \<open>dealerHit\<close>
  succeeds and advances the cursor by exactly one; when the dealer's sum is at least 17
  the sum, the base sum and the ace count stay as they are, and when it is below 17 they
  become what \<open>addCardToSum\<close> gives for the card at the cursor.
\<close>

theorem C2_dealerHit:
  assumes "exists (games s gameId)" and "phase (games s gameId) = DealerTurn"
    and "deckIndex (games s gameId) < 52"
  shows "\<exists>s'. dealerHit sender gameId s = Inr s' \<and>
     unat (deckIndex (games s' gameId)) = unat (deckIndex (games s gameId)) + 1 \<and>
     (if 17 \<le> dealerSum (games s gameId)
      then dealerSum (games s' gameId) = dealerSum (games s gameId)
         \<and> dealerBaseSum (games s' gameId) = dealerBaseSum (games s gameId)
         \<and> dealerAceCount (games s' gameId) = dealerAceCount (games s gameId)
      else (dealerBaseSum (games s' gameId), dealerAceCount (games s' gameId),
            dealerSum (games s' gameId))
           = addCardToSum (dealerBaseSum (games s gameId)) (dealerAceCount (games s gameId))
               (deck (games s gameId) ! unat (deckIndex (games s gameId))))"
  using assms
  by (auto simp: dealerHit_def Let_def dealerHit_hand_sums dealerHit_hand_frame uint8_suc
      prod_eq_iff)

theorem C2_dealerHit_witness:
  "exists (games demo_dealer 1) \<and> phase (games demo_dealer 1) = DealerTurn
   \<and> deckIndex (games demo_dealer 1) < 52 \<and> dealerSum (games demo_dealer 1) = 16
   \<and> (\<exists>s'. dealerHit bob 1 demo_dealer = Inr s'
         \<and> unat (deckIndex (games s' 1)) = 5 \<and> dealerSum (games s' 1) = 21)"
proof -
  have h: "exists (games demo_dealer 1)" "phase (games demo_dealer 1) = DealerTurn"
    "deckIndex (games demo_dealer 1) < 52"
    by (simp_all add: demo_dealer_hand)
  have a: "addCardToSum 16 0 5 = (21, 0, 21)"
    by (simp add: addCardToSum_eq getBlackjackBaseValue_eq calculateBlackjackSum_eq)
  show ?thesis
    using C2_dealerHit [OF h, of bob] h a
    by (auto simp: demo_dealer_hand demo_deck_nth)
qed

text \<open>
  C4. Called on an existing game whose phase is \<open>GameEnding\<close> or \<open>DealerTurn\<close>,
  \<open>endGame\<close> succeeds; afterwards both player cards, the dealer's hole card and the win
  flag are publicly decryptable, the win flag is 1 exactly when the player's sum is above
  the dealer's or the dealer's sum is above 21 and 0 otherwise, and the phase is
  \<open>Completed\<close>.
\<close>

theorem C4_endGame:
  assumes "exists (games s gameId)"
    and "phase (games s gameId) = GameEnding \<or> phase (games s gameId) = DealerTurn"
  shows "\<exists>s'. endGame sender gameId s = Inr s'
     \<and> card_disclosure s' gameId 0 = Public
     \<and> card_disclosure s' gameId 1 = Public
     \<and> card_disclosure s' gameId 3 = Public
     \<and> winFlag (games s' gameId) =
         (if dealerSum (games s gameId) < playerSum (games s gameId)
             \<or> 21 < dealerSum (games s gameId) then 1 else 0)
     \<and> disclosure (games s' gameId) WinFlag = Public
     \<and> phase (games s' gameId) = Completed"
  using assms
  by (auto simp: endGame_def Let_def disclosure_def card_disclosure_def level_of_def
      endGame_hand_frame endGame_hand_result endGame_grants_def grant_def)

theorem C4_endGame_witness:
  "exists (games demo_dealer 1) \<and> phase (games demo_dealer 1) = DealerTurn
   \<and> (\<exists>s'. endGame bob 1 demo_dealer = Inr s'
         \<and> card_disclosure s' 1 3 = Public
         \<and> winFlag (games s' 1) = 1 \<and> phase (games s' 1) = Completed)"
proof -
  have h: "exists (games demo_dealer 1)"
    "phase (games demo_dealer 1) = GameEnding \<or> phase (games demo_dealer 1) = DealerTurn"
    by (simp_all add: demo_dealer_hand)
  show ?thesis
    using C4_endGame [OF h, of bob] h
    by (auto simp: demo_dealer_hand)
qed

text \<open>
  C5, as amended. An account with balance \<open>b\<close> wagers \<open>w\<close> with \<open>0 < w \<le> b\<close> and
  \<open>b + w < 2 ^ 256\<close>. A \<open>startGame\<close> call whose encrypted inputs are accepted
  succeeds and leaves the balance \<open>b - w\<close>. After any calls that play games, once the
  game is \<open>Completed\<close>, \<open>payoutWinner\<close> by the owner with \<open>true\<close> brings the balance
  to \<open>b + w\<close>, and with \<open>false\<close> leaves it at \<open>b - w\<close>.
\<close>

theorem C5_round:
  assumes "0 < w" and "w \<le> chipBalances s sender"
    and "unat (chipBalances s sender) + unat w < 2 ^ 256"
    and "length encDeck = 52" and "attestation" and "betProof"
    and "unat (nextGameId s) + 1 < 2 ^ 256"
  shows "\<exists>gameId s1.
      startGame sender encDeck attestation encryptedBet betProof w s = Inr (gameId, s1)
      \<and> unat (chipBalances s1 sender) = unat (chipBalances s sender) - unat w
      \<and> (\<forall>txs. list_all (game_call \<circ> snd) txs
                  \<and> phase (games (run txs s1) gameId) = Completed \<longrightarrow>
            (\<exists>s3. payoutWinner sender gameId True (run txs s1) = Inr s3
                \<and> unat (chipBalances s3 sender) = unat (chipBalances s sender) + unat w)
          \<and> (\<exists>s3. payoutWinner sender gameId False (run txs s1) = Inr s3
                \<and> unat (chipBalances s3 sender) = unat (chipBalances s sender) - unat w))"
proof -
  let ?b = "chipBalances s sender"
  let ?i = "nextGameId s"
  define s1 where "s1 = s\<lparr>chipBalances := (chipBalances s)(sender := ?b - w),
               nextGameId := nextGameId s + 1,
               games := (games s)(?i := start_hand sender encDeck encryptedBet w (games s ?i)),
               inputAcl := start_grants sender encDeck encryptedBet (inputAcl s)\<rparr>"
  note sums = payout_sums [OF assms(2,3)]
  have start: "startGame sender encDeck attestation encryptedBet betProof w s = Inr (?i, s1)"
    unfolding s1_def using assms(1,2,4,5,6,7) by (rule startGame_ledger)
  have bal: "chipBalances s1 sender = ?b - w"
    by (simp add: s1_def)
  have hand: "exists (games s1 ?i)" "player (games s1 ?i) = sender"
    "plainBetAmount (games s1 ?i) = w"
    by (simp_all add: s1_def start_hand_frame)
  have later: "(\<exists>s3. payoutWinner sender ?i True (run txs s1) = Inr s3
                \<and> unat (chipBalances s3 sender) = unat ?b + unat w)
          \<and> (\<exists>s3. payoutWinner sender ?i False (run txs s1) = Inr s3
                \<and> unat (chipBalances s3 sender) = unat ?b - unat w)"
    if g: "list_all (game_call \<circ> snd) txs"
      and c: "phase (games (run txs s1) ?i) = Completed" for txs
  proof -
    let ?s2 = "run txs s1"
    have b2: "chipBalances ?s2 sender = ?b - w"
      using run_game_calls(1) [OF g, of s1] bal by simp
    have h2: "exists (games ?s2 ?i)" "player (games ?s2 ?i) = sender"
      "plainBetAmount (games ?s2 ?i) = w"
      using run_game_calls(2,3,4) [OF g, of s1 ?i] hand by simp_all
    have fits: "unat (chipBalances ?s2 sender) + unat (w * 2) < 2 ^ 256"
      using sums(4) by (simp only: b2)
    note pay = payoutWinner_completed [OF h2(1) c h2(2,3) sums(2) fits]
    show ?thesis
      using pay sums(1,5) by (simp add: b2)
  qed
  have "unat (chipBalances s1 sender) = unat ?b - unat w"
    using sums(1) bal by simp
  with start later show ?thesis
    by (intro exI [of _ ?i] exI [of _ s1]) simp
qed

theorem C5_round_witness:
  "chipBalances demo_start alice = 1000
   \<and> (\<exists>gameId s1. startGame alice demo_deck True demo_bet True 100 demo_start = Inr (gameId, s1)
        \<and> unat (chipBalances s1 alice) = 900
        \<and> (\<exists>s3. payoutWinner alice gameId True
                    (run [(alice, Stand 1), (bob, EndGame 1)] s1) = Inr s3
              \<and> unat (chipBalances s3 alice) = 1100)
        \<and> (\<exists>s3. payoutWinner alice gameId False
                    (run [(alice, Stand 1), (bob, EndGame 1)] s1) = Inr s3
              \<and> unat (chipBalances s3 alice) = 900))"
proof -
  have b: "chipBalances demo_start alice = 1000"
    by (simp add: demo_start_eq)
  have h: "(0 :: uint256) < 100" "100 \<le> chipBalances demo_start alice"
    "unat (chipBalances demo_start alice) + unat (100 :: uint256) < 2 ^ 256"
    "length demo_deck = 52" "True" "True" "unat (nextGameId demo_start) + 1 < 2 ^ 256"
    by (simp_all add: demo_start_eq demo_deck_length init_def)
  from C5_round [OF h, of demo_bet] obtain gameId s1 where
    start: "startGame alice demo_deck True demo_bet True 100 demo_start = Inr (gameId, s1)"
    and bal: "unat (chipBalances s1 alice) = unat (chipBalances demo_start alice) - unat (100 :: uint256)"
    and later: "\<And>txs. list_all (game_call \<circ> snd) txs
                  \<and> phase (games (run txs s1) gameId) = Completed \<Longrightarrow>
            (\<exists>s3. payoutWinner alice gameId True (run txs s1) = Inr s3
                \<and> unat (chipBalances s3 alice) = unat (chipBalances demo_start alice) + unat (100 :: uint256))
          \<and> (\<exists>s3. payoutWinner alice gameId False (run txs s1) = Inr s3
                \<and> unat (chipBalances s3 alice) = unat (chipBalances demo_start alice) - unat (100 :: uint256))"
    by blast
  have "gameId = 1" and s1: "s1 = demo_dealt"
    using start by (simp_all add: demo_start_game demo_dealt_eq)
  then have "list_all (game_call \<circ> snd) [(alice, Stand 1), (bob, EndGame 1)]
      \<and> phase (games (run [(alice, Stand 1), (bob, EndGame 1)] s1) gameId) = Completed"
    using demo_settled by simp
  from later [OF this] start bal b show ?thesis
    by simp
qed

text \<open>
  C5 as it is stated fails where the payout leaves the range of \<open>uint256\<close>: an account
  with \<open>2 ^ 255\<close> chips wagers them all (\<open>0 < w \<le> b\<close>), the game is completed, and
  the owner's \<open>payoutWinner\<close> with \<open>true\<close> reverts on \<open>plainBetAmount * 2\<close>, so that
  nothing is credited.
\<close>

theorem C5_counterexample:
  "unat (chipBalances whale alice) = 2 ^ 255
   \<and> 0 < big_stake \<and> big_stake \<le> chipBalances whale alice
   \<and> whale_done = run [(alice, StartGame demo_deck True demo_bet True big_stake),
                         (alice, Stand 1), (bob, EndGame 1)] whale
   \<and> chipBalances whale_done alice = 0
   \<and> phase (games whale_done 1) = Completed
   \<and> player (games whale_done 1) = alice
   \<and> plainBetAmount (games whale_done 1) = big_stake
   \<and> payoutWinner alice 1 True whale_done = Inl Panic"
  by (simp add: whale_done_def [symmetric] big_stake_facts)
     (simp add: whale_def whale_done_hand init_def payoutWinner_def Let_def
      start_hand_frame stand_hand_frame endGame_hand_frame big_stake_facts)

text \<open>
  C7. In every storage the contract can be in, the cursor of every game lies between 0
  and 52, and is at least 4 once the game exists (\<open>startGame\<close> sets it to 4). It
  never decreases, over one call or over any sequence of calls. On an existing game only
  \<open>hit\<close> and \<open>dealerHit\<close> on that game change it, each by exactly one, and each is
  refused when the cursor is not below 52.
\<close>

theorem C7_cursor:
  assumes "reachable s"
  shows "unat (deckIndex (games s gameId)) \<le> 52
    \<and> (exists (games s gameId) \<longrightarrow> 4 \<le> unat (deckIndex (games s gameId)))
    \<and> (\<forall>sender e att bet bp w i s'.
          startGame sender e att bet bp w s = Inr (i, s') \<longrightarrow> deckIndex (games s' i) = 4)
    \<and> (\<forall>txs. unat (deckIndex (games s gameId))
                 \<le> unat (deckIndex (games (run txs s) gameId)))
    \<and> (\<forall>sender c s'. step sender c s = Inr s' \<longrightarrow>
          unat (deckIndex (games s gameId)) \<le> unat (deckIndex (games s' gameId))
          \<and> (exists (games s gameId) \<longrightarrow>
               unat (deckIndex (games s' gameId)) =
                 (if c = Hit gameId \<or> c = DealerHit gameId
                  then unat (deckIndex (games s gameId)) + 1
                  else unat (deckIndex (games s gameId)))))
    \<and> (\<forall>sender. \<not> deckIndex (games s gameId) < 52 \<longrightarrow>
          (\<exists>e. hit sender gameId s = Inl e) \<and> (\<exists>e. dealerHit sender gameId s = Inl e))"
proof -
  note ok = reachable_ok [OF assms]
  have "\<forall>sender e att bet bp w i s'.
          startGame sender e att bet bp w s = Inr (i, s') \<longrightarrow> deckIndex (games s' i) = 4"
    by (auto dest!: startGameD(4) simp: start_hand_frame)
  moreover have "\<forall>sender. \<not> deckIndex (games s gameId) < 52 \<longrightarrow>
          (\<exists>e. hit sender gameId s = Inl e) \<and> (\<exists>e. dealerHit sender gameId s = Inl e)"
    by (simp add: hit_def dealerHit_def Let_def)
  ultimately show ?thesis
    using hand_ok_cursor [OF storage_okD(1) [OF ok, of gameId]]
      run_cursor [OF assms, of gameId] step_cursor [OF ok, of _ _ _ gameId]
    by simp
qed

theorem C7_cursor_witness:
  "reachable demo_dealt \<and> exists (games demo_dealt 1)
   \<and> unat (deckIndex (games demo_dealt 1)) = 4
   \<and> step alice (Hit 1) demo_dealt = Inr demo_bust
   \<and> unat (deckIndex (games demo_bust 1)) = 5
   \<and> unat (deckIndex (games demo_dealt 1)) \<le> unat (deckIndex (games (run [(alice, Hit 1)] demo_dealt) 1))"
proof -
  have h: "step alice (Hit 1) demo_dealt = Inr demo_bust"
    by (simp add: demo_bust_def run_def exec_def hit_def Let_def demo_dealt_sums)
  note c7 = C7_cursor [OF demo_reachable(2), of 1]
  note one = c7 [THEN conjunct2, THEN conjunct2, THEN conjunct2, THEN conjunct2,
      THEN conjunct1, rule_format, OF h]
  note many = c7 [THEN conjunct2, THEN conjunct2, THEN conjunct2, THEN conjunct1,
      rule_format, of "[(alice, Hit 1)]"]
  show ?thesis
    using one many h by (simp add: demo_reachable demo_dealt_sums)
qed

text \<open>
  C8. Once a game is \<open>Completed\<close>, \<open>hit\<close>, \<open>stand\<close>, \<open>dealerHit\<close> and
  \<open>setBustPhase\<close> on it fail with an error, whoever calls, and leave the storage as it
  was; and no call, successful or not, and no sequence of calls changes anything of the
  game, its phase included.
\<close>

theorem C8_completed:
  assumes "reachable s" and "phase (games s gameId) = Completed"
  shows "(\<exists>e. hit sender gameId s = Inl e) \<and> (\<exists>e. stand sender gameId s = Inl e)
    \<and> (\<exists>e. dealerHit sender gameId s = Inl e) \<and> (\<exists>e. setBustPhase sender gameId s = Inl e)
    \<and> exec (sender, Hit gameId) s = s \<and> exec (sender, Stand gameId) s = s
    \<and> exec (sender, DealerHit gameId) s = s \<and> exec (sender, SetBustPhase gameId) s = s
    \<and> (\<forall>a c. games (exec (a, c) s) gameId = games s gameId)
    \<and> (\<forall>txs. games (run txs s) gameId = games s gameId)"
proof -
  have fail: "(\<exists>e. hit sender gameId s = Inl e)" "(\<exists>e. stand sender gameId s = Inl e)"
    "(\<exists>e. dealerHit sender gameId s = Inl e)" "(\<exists>e. setBustPhase sender gameId s = Inl e)"
    using assms(2) by (simp_all add: hit_def stand_def dealerHit_def setBustPhase_def Let_def)
  then have "exec (sender, Hit gameId) s = s" "exec (sender, Stand gameId) s = s"
    "exec (sender, DealerHit gameId) s = s" "exec (sender, SetBustPhase gameId) s = s"
    by (auto simp: exec_def)
  with fail show ?thesis
    using completed_exec [OF assms] completed_run [OF assms] by simp
qed

theorem C8_completed_witness:
  "reachable demo_done \<and> phase (games demo_done 1) = Completed
   \<and> hit alice 1 demo_done = Inl (Require ''wrong phase'')
   \<and> hit bob 1 demo_done = Inl (Require ''invalid player'')
   \<and> dealerHit bob 1 demo_done = Inl (Require ''invalid state'')
   \<and> games (run [(alice, Hit 1), (alice, PayoutWinner 1 True), (bob, EndGame 1)] demo_done) 1
       = games demo_done 1"
proof -
  note c8 = C8_completed [OF demo_reachable(5) demo_done_hand(1), of alice]
  note many = c8 [THEN conjunct2, THEN conjunct2, THEN conjunct2, THEN conjunct2,
      THEN conjunct2, THEN conjunct2, THEN conjunct2, THEN conjunct2, THEN conjunct2,
      rule_format, of "[(alice, Hit 1), (alice, PayoutWinner 1 True), (bob, EndGame 1)]"]
  show ?thesis
    using many
    by (simp add: demo_reachable demo_done_hand hit_def dealerHit_def Let_def alice_def bob_def)
qed

text \<open>
  C10. In every storage the contract can be in, a player's sum above 21 stays above 21:
  a \<open>hit\<close> never lowers the base sum, a base sum above 21 is never promoted, so after
  a further \<open>hit\<close> the sum is above 21 again and the bust flag is 1 again; and over any
  sequence of calls the sum stays above 21 and a bust flag of 1 stays 1.
\<close>

theorem C10_bust:
  assumes "reachable s"
  shows "(\<forall>sender s'. hit sender gameId s = Inr s' \<longrightarrow>
            playerBaseSum (games s gameId) \<le> playerBaseSum (games s' gameId))
    \<and> (21 < playerBaseSum (games s gameId) \<longrightarrow>
            playerSum (games s gameId) = playerBaseSum (games s gameId))
    \<and> (21 < playerSum (games s gameId) \<longrightarrow>
          (\<forall>sender s'. hit sender gameId s = Inr s' \<longrightarrow>
              21 < playerSum (games s' gameId) \<and> bustFlag (games s' gameId) = 1)
          \<and> (\<forall>txs. 21 < playerSum (games (run txs s) gameId)))
    \<and> (bustFlag (games s gameId) = 1 \<longrightarrow>
          21 < playerSum (games s gameId)
          \<and> (\<forall>txs. bustFlag (games (run txs s) gameId) = 1))"
proof -
  note ok = storage_okD(1) [OF reachable_ok [OF assms], of gameId]
  have hits: "playerBaseSum (games s gameId) \<le> playerBaseSum (games s' gameId)"
    "21 < playerSum (games s gameId) \<Longrightarrow>
       21 < playerSum (games s' gameId) \<and> bustFlag (games s' gameId) = 1"
    if "hit sender gameId s = Inr s'" for sender s'
    using hitD [OF that] hit_hand_bust [OF ok] by simp_all
  have promo: "playerSum (games s gameId) = playerBaseSum (games s gameId)"
    if "21 < playerBaseSum (games s gameId)"
  proof (cases "exists (games s gameId)")
    case True
    with ok have b: "unat (playerBaseSum (games s gameId)) \<le> 255 * unat (deckIndex (games s gameId))"
      and p: "playerSum (games s gameId) =
          calculateBlackjackSum (playerBaseSum (games s gameId)) (playerAceCount (games s gameId))"
      by (simp_all add: hand_ok_def)
    have n: "unat (deckIndex (games s gameId)) \<le> 53"
      using hand_ok_cursor(1) [OF ok] by simp
    from b n that show ?thesis
      unfolding p by (rule no_promotion)
  next
    case False
    with ok that show ?thesis by (simp add: hand_ok_def no_game_def)
  qed
  have flag: "21 < playerSum (games s gameId)" if "bustFlag (games s gameId) = 1"
    using ok that by (cases "exists (games s gameId)") (auto simp: hand_ok_def no_game_def)
  show ?thesis
    using hits promo flag run_bust [OF assms, of gameId] run_bust_flag [OF assms, of gameId]
    by blast
qed

theorem C10_bust_witness:
  "reachable demo_bust \<and> playerSum (games demo_bust 1) = 25
   \<and> bustFlag (games demo_bust 1) = 1
   \<and> (\<exists>s'. hit alice 1 demo_bust = Inr s' \<and> 21 < playerSum (games s' 1)
          \<and> bustFlag (games s' 1) = 1)
   \<and> 21 < playerSum (games (run [(alice, Hit 1), (alice, Hit 1), (alice, Stand 1)] demo_bust) 1)"
proof -
  note c10 = C10_bust [OF demo_reachable(4), of 1]
  have b: "21 < playerSum (games demo_bust 1)"
    by (simp add: demo_bust_hand)
  note bust = c10 [THEN conjunct2, THEN conjunct2, THEN conjunct1, rule_format, OF b]
  have h: "hit alice 1 demo_bust =
      Inr (demo_bust\<lparr>games := (games demo_bust)(1 := hit_hand (games demo_bust 1)),
        inputAcl := hit_grants (games demo_bust 1) (inputAcl demo_bust)\<rparr>)"
    by (simp add: hit_def Let_def demo_bust_hand)
  note one = bust [THEN conjunct1, rule_format, OF h]
  note many = bust [THEN conjunct2, rule_format,
      of "[(alice, Hit 1), (alice, Hit 1), (alice, Stand 1)]"]
  show ?thesis
    using one many h by (simp add: demo_reachable demo_bust_hand)
qed




text \<open>
  C9, as amended. A call whose precondition fails reverts, and the storage (every hand
  and the ledger) stays as it was. The reason reported is that of the first check that
  fails, in the order of the code: for \<open>hit\<close>, \<open>stand\<close> and \<open>setBustPhase\<close> existence
  and ownership (\<open>invalid player\<close>), then the phase (\<open>wrong phase\<close>), then for \<open>hit\<close>
  the deck (\<open>deck empty\<close>); for \<open>dealerHit\<close> and \<open>endGame\<close> existence and phase
  (\<open>invalid state\<close>), then for \<open>dealerHit\<close> the deck; for \<open>payoutWinner\<close> existence,
  phase, ownership; for \<open>startGame\<close> the wager, then the balance. The messages for a
  phase mismatch, for ownership, for exhaustion and for the balance differ from each
  other. In particular \<open>hit\<close> called by the owner of an existing hand whose phase is not
  \<open>PlayerTurn\<close> has no effect and reports \<open>wrong phase\<close>.
\<close>

theorem C9_rejections:
  "(length encDeck = 52 \<and> \<not> (0 < plainBet \<and> plainBet \<le> chipBalances s sender) \<longrightarrow>
      startGame sender encDeck attestation encryptedBet betProof plainBet s =
        Inl (Require (if \<not> 0 < plainBet then ''Bet required''
                      else ''Insufficient CHIP balance'')))
   \<and> (\<not> (exists (games s gameId) \<and> player (games s gameId) = sender
          \<and> phase (games s gameId) = PlayerTurn \<and> deckIndex (games s gameId) < 52) \<longrightarrow>
      hit sender gameId s =
        Inl (Require (if \<not> (exists (games s gameId) \<and> player (games s gameId) = sender)
                      then ''invalid player''
                      else if phase (games s gameId) \<noteq> PlayerTurn then ''wrong phase''
                      else ''deck empty'')))
   \<and> (\<not> (exists (games s gameId) \<and> player (games s gameId) = sender
          \<and> phase (games s gameId) = PlayerTurn) \<longrightarrow>
      stand sender gameId s =
        Inl (Require (if \<not> (exists (games s gameId) \<and> player (games s gameId) = sender)
                      then ''invalid player'' else ''wrong phase''))
      \<and> setBustPhase sender gameId s =
        Inl (Require (if \<not> (exists (games s gameId) \<and> player (games s gameId) = sender)
                      then ''invalid player'' else ''wrong phase'')))
   \<and> (\<not> (exists (games s gameId) \<and> phase (games s gameId) = DealerTurn
          \<and> deckIndex (games s gameId) < 52) \<longrightarrow>
      dealerHit sender gameId s =
        Inl (Require (if \<not> (exists (games s gameId) \<and> phase (games s gameId) = DealerTurn)
                      then ''invalid state'' else ''deck empty'')))
   \<and> (\<not> (exists (games s gameId)
          \<and> (phase (games s gameId) = GameEnding \<or> phase (games s gameId) = DealerTurn)) \<longrightarrow>
      endGame sender gameId s = Inl (Require ''invalid state''))
   \<and> (\<not> (exists (games s gameId) \<and> phase (games s gameId) = Completed
          \<and> player (games s gameId) = sender) \<longrightarrow>
      payoutWinner sender gameId playerWon s =
        Inl (Require (if \<not> exists (games s gameId) then ''no game''
                      else if phase (games s gameId) \<noteq> Completed then ''not finished''
                      else ''only player can claim'')))
   \<and> (\<forall>c e. step sender c s = Inl e \<longrightarrow> exec (sender, c) s = s)
   \<and> (exists (games s gameId) \<and> player (games s gameId) = sender
        \<and> phase (games s gameId) \<noteq> PlayerTurn \<longrightarrow>
      hit sender gameId s = Inl (Require ''wrong phase'')
      \<and> exec (sender, Hit gameId) s = s)
   \<and> set [''wrong phase'', ''invalid state'', ''not finished'']
        \<inter> set [''invalid player'', ''only player can claim''] = {}
   \<and> distinct [''wrong phase'', ''invalid player'', ''deck empty'',
        ''Insufficient CHIP balance'', ''Bet required'', ''invalid state'', ''not finished'',
        ''only player can claim'', ''no game'']"
proof -
  have start: "length encDeck = 52 \<and> \<not> (0 < plainBet \<and> plainBet \<le> chipBalances s sender) \<longrightarrow>
      startGame sender encDeck attestation encryptedBet betProof plainBet s =
        Inl (Require (if \<not> 0 < plainBet then ''Bet required''
                      else ''Insufficient CHIP balance''))"
    by (simp add: startGame_def)
  have play: "\<not> (exists (games s gameId) \<and> player (games s gameId) = sender
          \<and> phase (games s gameId) = PlayerTurn \<and> deckIndex (games s gameId) < 52) \<longrightarrow>
      hit sender gameId s =
        Inl (Require (if \<not> (exists (games s gameId) \<and> player (games s gameId) = sender)
                      then ''invalid player''
                      else if phase (games s gameId) \<noteq> PlayerTurn then ''wrong phase''
                      else ''deck empty''))"
    by (simp add: hit_def Let_def)
  have turn: "\<not> (exists (games s gameId) \<and> player (games s gameId) = sender
          \<and> phase (games s gameId) = PlayerTurn) \<longrightarrow>
      stand sender gameId s =
        Inl (Require (if \<not> (exists (games s gameId) \<and> player (games s gameId) = sender)
                      then ''invalid player'' else ''wrong phase''))
      \<and> setBustPhase sender gameId s =
        Inl (Require (if \<not> (exists (games s gameId) \<and> player (games s gameId) = sender)
                      then ''invalid player'' else ''wrong phase''))"
    by (simp add: stand_def setBustPhase_def Let_def)
  have dealer: "\<not> (exists (games s gameId) \<and> phase (games s gameId) = DealerTurn
          \<and> deckIndex (games s gameId) < 52) \<longrightarrow>
      dealerHit sender gameId s =
        Inl (Require (if \<not> (exists (games s gameId) \<and> phase (games s gameId) = DealerTurn)
                      then ''invalid state'' else ''deck empty''))"
    by (simp add: dealerHit_def Let_def)
  have settle: "\<not> (exists (games s gameId)
          \<and> (phase (games s gameId) = GameEnding \<or> phase (games s gameId) = DealerTurn)) \<longrightarrow>
      endGame sender gameId s = Inl (Require ''invalid state'')"
    by (simp add: endGame_def Let_def)
  have pay: "\<not> (exists (games s gameId) \<and> phase (games s gameId) = Completed
          \<and> player (games s gameId) = sender) \<longrightarrow>
      payoutWinner sender gameId playerWon s =
        Inl (Require (if \<not> exists (games s gameId) then ''no game''
                      else if phase (games s gameId) \<noteq> Completed then ''not finished''
                      else ''only player can claim''))"
    by (simp add: payoutWinner_def Let_def)
  have revert: "\<forall>c e. step sender c s = Inl e \<longrightarrow> exec (sender, c) s = s"
    by (simp add: exec_def)
  have owner: "exists (games s gameId) \<and> player (games s gameId) = sender
        \<and> phase (games s gameId) \<noteq> PlayerTurn \<longrightarrow>
      hit sender gameId s = Inl (Require ''wrong phase'')
      \<and> exec (sender, Hit gameId) s = s"
    by (simp add: hit_def Let_def exec_def)
  have msgs: "set [''wrong phase'', ''invalid state'', ''not finished'']
        \<inter> set [''invalid player'', ''only player can claim''] = {}"
    "distinct [''wrong phase'', ''invalid player'', ''deck empty'',
        ''Insufficient CHIP balance'', ''Bet required'', ''invalid state'', ''not finished'',
        ''only player can claim'', ''no game'']"
    by simp_all
  from start play turn dealer settle pay revert owner msgs show ?thesis
    by (intro conjI)
qed

theorem C9_rejections_witness:
  "exists (games demo_dealer 1) \<and> player (games demo_dealer 1) = alice
   \<and> phase (games demo_dealer 1) = DealerTurn
   \<and> hit alice 1 demo_dealer = Inl (Require ''wrong phase'')
   \<and> exec (alice, Hit 1) demo_dealer = demo_dealer
   \<and> stand alice 1 demo_dealer = Inl (Require ''wrong phase'')
   \<and> payoutWinner alice 1 True demo_dealer = Inl (Require ''not finished'')
   \<and> dealerHit alice 7 demo_dealer = Inl (Require ''invalid state'')
   \<and> startGame alice demo_deck True demo_bet True 5000 demo_dealer
       = Inl (Require ''Insufficient CHIP balance'')"
proof -
  note c9 = C9_rejections [where encDeck = demo_deck and plainBet = 5000 and s = demo_dealer
      and sender = alice and gameId = 1 and playerWon = True and attestation = True
      and encryptedBet = demo_bet and betProof = True]
  note c9' = C9_rejections [where encDeck = demo_deck and plainBet = 5000 and s = demo_dealer
      and sender = alice and gameId = 7 and playerWon = True and attestation = True
      and encryptedBet = demo_bet and betProof = True]
  have bal: "chipBalances demo_dealer alice = 900"
    by (simp add: demo_dealer_eq demo_dealt_eq)
  have none: "\<not> exists (games demo_dealer 7)"
    by (simp add: demo_dealer_eq demo_dealt_eq init_def no_game_def)
  show ?thesis
    using c9 c9' [THEN conjunct2, THEN conjunct2, THEN conjunct2, THEN conjunct1] bal none
    by (simp add: demo_dealer_hand demo_deck_length)
qed

text \<open>
  C9 as it is stated fails on the order of the checks: \<open>hit\<close> called by another account
  on a hand whose phase is not \<open>PlayerTurn\<close> reports \<open>invalid player\<close>, not a phase
  mismatch.
\<close>

theorem C9_counterexample:
  "exists (games demo_dealer 1) \<and> phase (games demo_dealer 1) = DealerTurn
   \<and> DealerTurn \<noteq> PlayerTurn
   \<and> hit bob 1 demo_dealer = Inl (Require ''invalid player'')
   \<and> hit bob 1 demo_dealer \<noteq> Inl (Require ''wrong phase'')"
  by (simp add: hit_def Let_def demo_dealer_hand alice_def bob_def)

end
